theory Spec2Isabelle
  imports Complex_Main "HOL-Library.AList"
begin

section \<open>JavaScript values\<close>

text \<open>
  Replies of the game coordinator are plain JavaScript objects that the session edits in
  place (it adds, renames and deletes properties), so they are modelled dynamically: an
  object is an association list in insertion order, the order JavaScript keeps its
  properties in. An array carries its elements and, as any object, the named properties
  that were set on it. Numbers are rationals; the code only copies and compares the
  numbers of a reply, it does no arithmetic on them.
\<close>

datatype jsval =
    JUndefined
  | JNull
  | JBool bool
  | JNum rat
  | JStr string
  | JArr "jsval list" "(string \<times> jsval) list"
  | JObj "(string \<times> jsval) list"

type_synonym jsobj = "(string \<times> jsval) list"

text \<open>Reading a property: a missing property reads as \<open>undefined\<close>.\<close>

definition obj_get :: "jsobj \<Rightarrow> string \<Rightarrow> jsval" where
  "obj_get ob k = (case map_of ob k of None \<Rightarrow> JUndefined | Some v \<Rightarrow> v)"

text \<open>\<open>ob.k = v\<close> keeps the position of an existing property and appends a new one.\<close>

definition obj_set :: "string \<Rightarrow> jsval \<Rightarrow> jsobj \<Rightarrow> jsobj" where
  "obj_set k v ob = AList.update k v ob"

definition obj_delete :: "string \<Rightarrow> jsobj \<Rightarrow> jsobj" where
  "obj_delete k ob = AList.delete k ob"

text \<open>Truthiness, as \<open>||\<close> and \<open>if\<close> test it.\<close>

fun truthy :: "jsval \<Rightarrow> bool" where
  "truthy JUndefined = False"
| "truthy JNull = False"
| "truthy (JBool b) = b"
| "truthy (JNum n) = (n \<noteq> 0)"
| "truthy (JStr st) = (st \<noteq> [])"
| "truthy (JArr xs ps) = True"
| "truthy (JObj ob) = True"

section \<open>The session: class Bot\<close>

text \<open>\<open>currentRequest\<close>: the inspect parameters and the time the request was issued.\<close>

record request =
  req_s :: string
  req_a :: string
  req_d :: string
  req_m :: string
  req_time :: int

text \<open>
  A promise is settled at most once; later calls of its \<open>resolve\<close> or \<open>reject\<close> do
  nothing. The promises a session has created are kept in a list that only grows, and a
  promise is named by its position there.
\<close>

datatype promise = Pending | Resolved jsval | Rejected string

text \<open>
  Timers of \<open>setTimeout\<close>: the callbacks the session arms are the TTL callback of
  \<open>sendFloatRequest\<close> (it closes over the \<open>reject\<close> of its own promise) and the callback
  of the reply handler that clears \<open>busy\<close>. Every timer ever armed stays in a list that
  only grows, with its due time and its status; its handle is its position.
\<close>

datatype timer_action = TtlExceeded nat | ClearBusy

datatype timer_status = Armed | Cleared | Fired

record login_data =
  accountName :: "string option"
  ld_password :: "string option"
  rememberPassword :: bool
  authCode :: "string option"
  twoFactorCode :: "string option"

record bot =
  ready_flag :: bool
  busy :: bool
  currentRequest :: "request option"
  resolve :: "nat option"
  reject :: "nat option"
  ttlTimeout :: "nat option"
  request_delay :: int
  request_ttl :: int
  proxyGroupId :: "nat option"
  promises :: "promise list"
  timers :: "(int \<times> timer_action \<times> timer_status) list"
  gcInspects :: "(string \<times> string \<times> string) list"
  username :: "string option"
  user :: "string option"
  password :: "string option"
  auth :: "string option"
  loginData :: "login_data option"
  needsSteamGuard :: bool
  logOnCalls :: "login_data list"

text \<open>The getter \<open>ready\<close>: the field \<open>ready_\<close> of the source, or \<open>false\<close>.\<close>

definition ready :: "bot \<Rightarrow> bool" where
  "ready b = (ready_flag b \<or> False)"

text \<open>Settling a promise: only a pending promise changes.\<close>

definition settle :: "nat \<Rightarrow> promise \<Rightarrow> bot \<Rightarrow> bot" where
  "settle pid outcome b =
     (if pid < length (promises b) \<and> promises b ! pid = Pending
      then b\<lparr>promises := (promises b)[pid := outcome]\<rparr>
      else b)"

text \<open>\<open>setTimeout(callback, ms)\<close> at time \<open>now\<close>; the handle is returned.\<close>

definition setTimeout :: "timer_action \<Rightarrow> int \<Rightarrow> int \<Rightarrow> bot \<Rightarrow> nat \<times> bot" where
  "setTimeout act ms now b =
     (length (timers b), b\<lparr>timers := timers b @ [(now + ms, act, Armed)]\<rparr>)"

text \<open>\<open>clearTimeout(handle)\<close>: an armed timer is disarmed, any other handle is ignored.\<close>

definition clearTimeout :: "nat \<Rightarrow> bot \<Rightarrow> bot" where
  "clearTimeout h b =
     (if h < length (timers b) \<and> snd (snd (timers b ! h)) = Armed
      then b\<lparr>timers := (timers b)[h := (fst (timers b ! h), fst (snd (timers b ! h)), Cleared)]\<rparr>
      else b)"

text \<open>
  \<open>sendFloatRequest(link)\<close> at time \<open>now\<close>, with \<open>link.getParams()\<close> given as the four
  strings. It returns the handle of the new promise. The promise executor runs at once:
  \<open>resolve\<close>, \<open>reject\<close>, \<open>busy\<close> and \<open>currentRequest\<close> are set before \<open>ready\<close> is
  looked at, and the TTL timer is armed on both branches.
\<close>

definition sendFloatRequest ::
  "bot \<Rightarrow> int \<Rightarrow> string \<Rightarrow> string \<Rightarrow> string \<Rightarrow> string \<Rightarrow> nat \<times> bot" where
  "sendFloatRequest b now ps pa pd pm =
     (let pid = length (promises b);
          b1 = b\<lparr>promises := promises b @ [Pending],
                 resolve := Some pid,
                 reject := Some pid,
                 busy := True,
                 currentRequest :=
                   Some \<lparr>req_s = ps, req_a = pa, req_d = pd, req_m = pm, req_time = now\<rparr>\<rparr>;
          b2 = (if \<not> ready b1
                then settle pid (Rejected ''This bot is not ready'') b1
                else b1\<lparr>gcInspects :=
                          gcInspects b1 @ [(if ps \<noteq> ''0'' then ps else pm, pa, pd)]\<rparr>);
          (h, b3) = setTimeout (TtlExceeded pid) (request_ttl b2) now b2
      in (pid, b3\<lparr>ttlTimeout := Some h\<rparr>))"

text \<open>
  The event loop runs the callback of an armed timer once its due time has come. \<open>None\<close>:
  the timer cannot fire at \<open>now\<close> (not armed, or not due yet).
\<close>

definition run_timer_action :: "timer_action \<Rightarrow> bot \<Rightarrow> bot" where
  "run_timer_action act b =
     (case act of
        TtlExceeded pid \<Rightarrow>
          settle pid (Rejected ''ttl exceeded'') (b\<lparr>busy := False, currentRequest := None\<rparr>)
      | ClearBusy \<Rightarrow> b\<lparr>busy := False\<rparr>)"

definition fire_timer :: "bot \<Rightarrow> int \<Rightarrow> nat \<Rightarrow> bot option" where
  "fire_timer b now h =
     (if h < length (timers b) then
        (case timers b ! h of
           (due, act, st) \<Rightarrow>
             if st = Armed \<and> due \<le> now
             then Some (run_timer_action act (b\<lparr>timers := (timers b)[h := (due, act, Fired)]\<rparr>))
             else None)
      else None)"

text \<open>
  The sticker loop of the reply handler: \<open>sticker.stickerId = sticker.sticker_id;
  delete sticker.sticker_id\<close>. The class body is strict code, so the assignment throws a
  TypeError on a sticker that is a primitive, \<open>null\<close> or \<open>undefined\<close>: \<open>None\<close>. On a
  sticker that is an array the two statements work on its named properties.
\<close>

fun rename_sticker :: "jsval \<Rightarrow> jsval option" where
  "rename_sticker (JObj st) =
     Some (JObj (obj_delete ''sticker_id'' (obj_set ''stickerId'' (obj_get st ''sticker_id'') st)))"
| "rename_sticker (JArr xs ps) =
     Some (JArr xs
             (obj_delete ''sticker_id'' (obj_set ''stickerId'' (obj_get ps ''sticker_id'') ps)))"
| "rename_sticker _ = None"

fun rename_stickers :: "jsval list \<Rightarrow> jsval list option" where
  "rename_stickers [] = Some []"
| "rename_stickers (x # xs) =
     (case rename_sticker x of
        None \<Rightarrow> None
      | Some y \<Rightarrow> (case rename_stickers xs of None \<Rightarrow> None | Some ys \<Rightarrow> Some (y # ys)))"

text \<open>
  \<open>for (const sticker of itemData.iteminfo.stickers)\<close>: an array is iterated; a string
  is iterated by characters (each a primitive); any other value is not iterable and the
  loop throws.
\<close>

fun sticker_loop :: "jsval \<Rightarrow> jsval option" where
  "sticker_loop (JArr xs ps) = map_option (\<lambda>ys. JArr ys ps) (rename_stickers xs)"
| "sticker_loop (JStr cs) = (if cs = [] then Some (JStr cs) else None)"
| "sticker_loop _ = None"

text \<open>
  The handler of \<open>inspectItemInfo\<close> at time \<open>now\<close>. \<open>Returned b\<close>: the handler ran to its
  end (or took its early return) and left the session as \<open>b\<close>; \<open>Threw b\<close>: it threw in
  the sticker loop, after the TTL timer had been cleared and before the promise was
  resolved, leaving the session as \<open>b\<close>.
\<close>

datatype handler_result = Returned bot | Threw bot

definition normalize_iteminfo :: "request \<Rightarrow> jsobj \<Rightarrow> jsobj" where
  "normalize_iteminfo rq info =
     (let i1 = obj_set ''s'' (JStr (req_s rq)) info;
          i2 = obj_set ''a'' (JStr (req_a rq)) i1;
          i3 = obj_set ''d'' (JStr (req_d rq)) i2;
          i4 = obj_set ''m'' (JStr (req_m rq)) i3;
          i5 = obj_set ''paintseed''
                 (if truthy (obj_get i4 ''paintseed'') then obj_get i4 ''paintseed'' else JNum 0) i4;
          i6 = obj_set ''floatvalue'' (obj_get i5 ''paintwear'') i5
      in obj_delete ''paintwear'' i6)"

definition inspectItemInfo :: "bot \<Rightarrow> int \<Rightarrow> jsobj \<Rightarrow> handler_result" where
  "inspectItemInfo b now itemData =
     (case (resolve b, currentRequest b) of
        (Some pid, Some rq) \<Rightarrow>
          if obj_get itemData ''itemid'' \<noteq> JStr (req_a rq) then Returned b
          else
            let b1 = (case ttlTimeout b of
                        Some h \<Rightarrow> (clearTimeout h b)\<lparr>ttlTimeout := None\<rparr>
                      | None \<Rightarrow> b);
                offset = now - req_time rq;
                delay0 = request_delay b1 - offset;
                delay = (if delay0 < 0 then 0 else delay0);
                info = normalize_iteminfo rq itemData
            in (case sticker_loop (obj_get info ''stickers'') of
                  None \<Rightarrow> Threw b1
                | Some ss \<Rightarrow>
                    let info' = (case ss of JArr _ _ \<Rightarrow> obj_set ''stickers'' ss info | _ \<Rightarrow> info);
                        b2 = settle pid
                               (Resolved (JObj [(''iteminfo'', JObj info'),
                                                (''delay'', JNum (of_int delay))])) b1;
                        b3 = b2\<lparr>resolve := None, currentRequest := None\<rparr>
                    in Returned (snd (setTimeout ClearBusy delay now b3)))
      | _ \<Rightarrow> Returned b)"

text \<open>
  The handler of \<open>inspectItemTimedOut\<close>.
\<close>

definition inspectItemTimedOut :: "bot \<Rightarrow> bot" where
  "inspectItemTimedOut b =
     (case (resolve b, currentRequest b) of
        (Some pid, Some rq) \<Rightarrow>
          let b1 = (case ttlTimeout b of
                      Some h \<Rightarrow> (clearTimeout h b)\<lparr>ttlTimeout := None\<rparr>
                    | None \<Rightarrow> b);
              rejectFn = reject b1;
              b2 = b1\<lparr>busy := False, currentRequest := None, resolve := None, reject := None\<rparr>
          in (case rejectFn of
                Some r \<Rightarrow> settle r (Rejected ''GC inspect timeout'') b2
              | None \<Rightarrow> b2)
      | _ \<Rightarrow> b)"

text \<open>
  \<open>logIn(username, password, auth, steamGuardCode = null)\<close>. \<open>args\<close> is \<open>None\<close> for a
  call with fewer than three arguments, which logs in with the saved credentials.
  \<open>getAuthCode\<close> stands for \<open>SteamTotp.getAuthCode\<close> of the \<open>steam-totp\<close> package at the
  time of the call (\<open>None\<close>: it throws, which \<open>logIn\<close> catches and logs). The call
  \<open>steamClient.logOn(loginData)\<close> is recorded in \<open>logOnCalls\<close>; the \<open>unready\<close> event of
  the setter of \<open>ready\<close> and the \<open>logOff\<close> of the old connection are not part of the
  state modelled here.
\<close>

definition truthy_str :: "string option \<Rightarrow> bool" where
  "truthy_str x = (case x of None \<Rightarrow> False | Some st \<Rightarrow> st \<noteq> [])"

definition logIn ::
  "(string \<Rightarrow> string option) \<Rightarrow> bot \<Rightarrow> (string \<times> string \<times> string option) option
     \<Rightarrow> string option \<Rightarrow> bot" where
  "logIn getAuthCode b args steamGuardCode =
     (let b1 = b\<lparr>ready_flag := False\<rparr>;
          b2 = (case args of
                  Some (u, p, au) \<Rightarrow>
                    b1\<lparr>username := Some u, user := Some u, password := Some p, auth := au\<rparr>
                | None \<Rightarrow> b1);
          ld = \<lparr>accountName = username b2, ld_password = password b2, rememberPassword = True,
                authCode = None, twoFactorCode = None\<rparr>;
          (ld', nsg) =
            (if truthy_str steamGuardCode then (ld\<lparr>authCode := steamGuardCode\<rparr>, False)
             else (case auth b2 of
                     Some au \<Rightarrow>
                       if au \<noteq> [] then
                         (if length au \<le> 5 then (ld\<lparr>authCode := Some au\<rparr>, needsSteamGuard b2)
                          else (ld\<lparr>twoFactorCode := getAuthCode au\<rparr>, needsSteamGuard b2))
                       else (ld, needsSteamGuard b2)
                   | None \<Rightarrow> (ld, needsSteamGuard b2)))
      in b2\<lparr>loginData := Some ld', needsSteamGuard := nsg, logOnCalls := logOnCalls b2 @ [ld']\<rparr>)"

section \<open>The proxy pool: classes ProxyGroup and ProxyPoolManager\<close>

text \<open>
  Sessions are objects that the pool, the controller and the queue share. The pool keeps
  them by reference: a session is named by a number and \<open>heap\<close> holds the object behind
  each name. A proxy group is referred to by its position in \<open>proxyGroups\<close>, an array
  that is built once by the constructor and never reordered. Counters are integers;
  quotients of counters (success rate, load) are rationals, and the thresholds 0.3 and
  0.1 are the rationals 3/10 and 1/10. The source computes in double precision. Two
  quotients of counters are ordered there as the rationals are unless they agree to
  more than fifteen digits; a difference of two success rates that is exactly 1/10 may
  come out above 0.1 in doubles (0.8 - 0.7 does) where the rationals are equal.
\<close>

record proxy_group =
  group_id :: nat
  proxyUrl :: "string option"
  bots :: "nat list"
  activeRequests :: int
  totalRequests :: int
  lastRequestTime :: int
  failures :: int
  loginFailures :: int
  successfulLogins :: int

definition newProxyGroup :: "string option \<Rightarrow> nat \<Rightarrow> proxy_group" where
  "newProxyGroup url i =
     \<lparr>group_id = i, proxyUrl = url, bots = [], activeRequests = 0, totalRequests = 0,
      lastRequestTime = 0, failures = 0, loginFailures = 0, successfulLogins = 0\<rparr>"

definition recordLoginSuccess :: "proxy_group \<Rightarrow> proxy_group" where
  "recordLoginSuccess g = g\<lparr>successfulLogins := successfulLogins g + 1\<rparr>"

definition recordLoginFailure :: "proxy_group \<Rightarrow> proxy_group" where
  "recordLoginFailure g = g\<lparr>loginFailures := loginFailures g + 1\<rparr>"

definition getSuccessRate :: "proxy_group \<Rightarrow> rat" where
  "getSuccessRate g =
     (let total = successfulLogins g + loginFailures g
      in if total > 0 then of_int (successfulLogins g) / of_int total else 0)"

definition canAcceptRequest :: "proxy_group \<Rightarrow> int \<Rightarrow> int \<Rightarrow> int \<Rightarrow> bool" where
  "canAcceptRequest g maxRequests cooldownMs now =
     (if activeRequests g \<ge> maxRequests then False
      else if cooldownMs \<noteq> 0 \<and> now - lastRequestTime g < cooldownMs then False
      else True)"

definition available :: "bot \<Rightarrow> bool" where
  "available b = (\<not> busy b \<and> ready b)"

definition group_getAvailableBot :: "(nat \<Rightarrow> bot) \<Rightarrow> proxy_group \<Rightarrow> nat option" where
  "group_getAvailableBot h g = find (\<lambda>b. available (h b)) (bots g)"

definition startRequest :: "proxy_group \<Rightarrow> int \<Rightarrow> proxy_group" where
  "startRequest g now =
     g\<lparr>activeRequests := activeRequests g + 1,
       totalRequests := totalRequests g + 1,
       lastRequestTime := now\<rparr>"

definition endRequest :: "proxy_group \<Rightarrow> bool \<Rightarrow> proxy_group" where
  "endRequest g success =
     (let g1 = g\<lparr>activeRequests := max 0 (activeRequests g - 1)\<rparr>
      in if \<not> success then g1\<lparr>failures := failures g1 + 1\<rparr> else g1)"

record retry_config =
  enabled :: bool
  maxRetries :: int
  excludeFailed :: bool
  retryDelay :: int

record pool =
  proxyGroups :: "proxy_group list"
  botToGroupMap :: "nat \<rightharpoonup> nat"
  maxRequestsPerProxy :: int
  requestCooldown :: int
  currentRoundRobinIndex :: nat
  retryConfig :: retry_config
  botRetryCount :: "nat \<rightharpoonup> int"
  failedProxies :: "nat set"
  heap :: "nat \<Rightarrow> bot"

text \<open>
  \<open>loadProxies\<close>: \<open>Some urls\<close> are the non-blank lines of the proxies file, trimmed;
  \<open>None\<close> is a file that cannot be read, which gives the single group without a proxy.
\<close>

definition loadProxies :: "string list option \<Rightarrow> proxy_group list" where
  "loadProxies src =
     (case src of
        Some urls \<Rightarrow> map (\<lambda>(i, u). newProxyGroup (Some u) i) (enumerate 0 urls)
      | None \<Rightarrow> [newProxyGroup None 0])"

text \<open>
  The constructor; the retry configuration is given with its defaults already applied,
  and \<open>h\<close> is the heap of sessions at that time.
\<close>

definition newProxyPoolManager ::
  "string list option \<Rightarrow> int \<Rightarrow> int \<Rightarrow> retry_config \<Rightarrow> (nat \<Rightarrow> bot) \<Rightarrow> pool" where
  "newProxyPoolManager src maxReq cooldown rc h =
     \<lparr>proxyGroups = loadProxies src, botToGroupMap = Map.empty, maxRequestsPerProxy = maxReq,
      requestCooldown = cooldown, currentRoundRobinIndex = 0, retryConfig = rc,
      botRetryCount = Map.empty, failedProxies = {}, heap = h\<rparr>"

text \<open>
  \<open>group.addBot(bot)\<close> and \<open>group.removeBot(bot)\<close> for the group at position \<open>gi\<close>.
  The proxy URL that \<open>distributeBots\<close> and \<open>reassignBot\<close> then write into
  \<open>bot.settings.steam_user\<close> is read by no function of the pool and is not part of the
  state modelled here.
\<close>

definition addBot :: "nat \<Rightarrow> nat \<Rightarrow> pool \<Rightarrow> pool" where
  "addBot gi b p =
     (let g = proxyGroups p ! gi
      in p\<lparr>proxyGroups := (proxyGroups p)[gi := g\<lparr>bots := bots g @ [b]\<rparr>],
           heap := (heap p)(b := (heap p b)\<lparr>proxyGroupId := Some (group_id g)\<rparr>)\<rparr>)"

definition removeBot :: "nat \<Rightarrow> nat \<Rightarrow> pool \<Rightarrow> pool" where
  "removeBot gi b p =
     (let g = proxyGroups p ! gi
      in p\<lparr>proxyGroups := (proxyGroups p)[gi := g\<lparr>bots := remove1 b (bots g)\<rparr>]\<rparr>)"

text \<open>
  The loop of \<open>distributeBots\<close>: \<open>k\<close> is \<open>botIndex\<close>, \<open>px\<close> is \<open>proxyIndex\<close>.
\<close>

fun distribute_loop :: "nat \<Rightarrow> nat \<Rightarrow> nat \<Rightarrow> nat list \<Rightarrow> pool \<Rightarrow> pool" where
  "distribute_loop botsPerProxy k px [] p = p"
| "distribute_loop botsPerProxy k px (b # bs) p =
     (let p1 = addBot px b p;
          p2 = p1\<lparr>botToGroupMap := (botToGroupMap p1)(b \<mapsto> px)\<rparr>;
          px' = (if (k + 1) mod botsPerProxy = 0 \<and> px < length (proxyGroups p2) - 1
                 then px + 1 else px)
      in distribute_loop botsPerProxy (k + 1) px' bs p2)"

definition distributeBots :: "nat list \<Rightarrow> pool \<Rightarrow> pool" where
  "distributeBots bs p =
     (if length (proxyGroups p) = 0 then p
      else
        let p1 = p\<lparr>proxyGroups := map (\<lambda>g. g\<lparr>bots := []\<rparr>) (proxyGroups p),
                   botToGroupMap := Map.empty\<rparr>;
            botsPerProxy = nat \<lceil>(of_nat (length bs) :: rat) / of_nat (length (proxyGroups p1))\<rceil>
        in distribute_loop botsPerProxy 0 0 bs p1)"

text \<open>
  The two selection strategies of \<open>getAvailableBot\<close>. \<open>Date.now()\<close> is read once for
  the whole call. In the least-loaded loop \<open>minLoad\<close> starts at \<open>Infinity\<close>: \<open>None\<close>.
\<close>

definition group_load :: "proxy_group \<Rightarrow> rat" where
  "group_load g = of_int (activeRequests g) / of_int (max 1 (int (length (bots g))))"

definition load_less :: "rat \<Rightarrow> rat option \<Rightarrow> bool" where
  "load_less l minLoad = (case minLoad of None \<Rightarrow> True | Some m \<Rightarrow> l < m)"

fun least_loaded_loop ::
  "pool \<Rightarrow> int \<Rightarrow> nat list \<Rightarrow> rat option \<Rightarrow> (nat \<times> nat) option \<Rightarrow> (nat \<times> nat) option" where
  "least_loaded_loop p now [] minLoad sel = sel"
| "least_loaded_loop p now (i # rest) minLoad sel =
     (let g = proxyGroups p ! i
      in if canAcceptRequest g (maxRequestsPerProxy p) (requestCooldown p) now then
           (let l = group_load g
            in if load_less l minLoad then
                 (case group_getAvailableBot (heap p) g of
                    Some b \<Rightarrow> least_loaded_loop p now rest (Some l) (Some (i, b))
                  | None \<Rightarrow> least_loaded_loop p now rest minLoad sel)
               else least_loaded_loop p now rest minLoad sel)
         else least_loaded_loop p now rest minLoad sel)"

fun round_robin_loop :: "pool \<Rightarrow> int \<Rightarrow> nat \<Rightarrow> nat list \<Rightarrow> (nat \<times> nat) option" where
  "round_robin_loop p now startIndex [] = None"
| "round_robin_loop p now startIndex (i # rest) =
     (let index = (startIndex + i) mod length (proxyGroups p);
          g = proxyGroups p ! index
      in if canAcceptRequest g (maxRequestsPerProxy p) (requestCooldown p) now then
           (case group_getAvailableBot (heap p) g of
              Some b \<Rightarrow> Some (index, b)
            | None \<Rightarrow> round_robin_loop p now startIndex rest)
         else round_robin_loop p now startIndex rest)"

definition getAvailableBot :: "string \<Rightarrow> int \<Rightarrow> pool \<Rightarrow> nat option \<times> pool" where
  "getAvailableBot strategy now p =
     (let (sel, p1) =
            (if strategy = ''round_robin'' then
               (case round_robin_loop p now (currentRoundRobinIndex p)
                       [0..<length (proxyGroups p)] of
                  Some (index, b) \<Rightarrow>
                    (Some (index, b),
                     p\<lparr>currentRoundRobinIndex := (index + 1) mod length (proxyGroups p)\<rparr>)
                | None \<Rightarrow> (None, p))
             else (least_loaded_loop p now [0..<length (proxyGroups p)] None None, p))
      in case sel of
           Some (gi, b) \<Rightarrow>
             (Some b, p1\<lparr>proxyGroups := (proxyGroups p1)[gi := startRequest (proxyGroups p1 ! gi) now]\<rparr>)
         | None \<Rightarrow> (None, p1))"

definition releaseBot :: "nat \<Rightarrow> bool \<Rightarrow> pool \<Rightarrow> pool" where
  "releaseBot b success p =
     (case botToGroupMap p b of
        Some gi \<Rightarrow> p\<lparr>proxyGroups := (proxyGroups p)[gi := endRequest (proxyGroups p ! gi) success]\<rparr>
      | None \<Rightarrow> p)"

definition getMaxConcurrency :: "pool \<Rightarrow> int" where
  "getMaxConcurrency p = int (length (proxyGroups p)) * maxRequestsPerProxy p"

definition canAcceptMoreRequests :: "pool \<Rightarrow> int \<Rightarrow> bool" where
  "canAcceptMoreRequests p now =
     list_ex (\<lambda>g. canAcceptRequest g (maxRequestsPerProxy p) (requestCooldown p) now \<and>
                  list_ex (\<lambda>b. available (heap p b)) (bots g)) (proxyGroups p)"

text \<open>
  \<open>reassignBot\<close>. The comparator of the sort is the source's; \<open>Array.prototype.sort\<close>
  is modelled as a stable insertion sort, which is what every stable sort computes when
  the comparator is a consistent order. The comparator here compares success rates in
  steps of 0.1 and is not transitive, so on some inputs an engine orders the groups
  differently; and it compares the difference of two rates with 0.1 in doubles, which
  differs from the rationals where the difference is exactly 1/10. Both change only
  which of the available groups comes first. The statements below use of the new group
  only that it is one of the available groups.
\<close>

definition group_cmp :: "proxy_group list \<Rightarrow> nat \<Rightarrow> nat \<Rightarrow> int" where
  "group_cmp gs x y =
     (let successDiff = getSuccessRate (gs ! y) - getSuccessRate (gs ! x)
      in if \<bar>successDiff\<bar> > 1 / 10 then (if successDiff > 0 then 1 else - 1)
         else int (length (bots (gs ! x))) - int (length (bots (gs ! y))))"

fun insert_cmp :: "('a \<Rightarrow> 'a \<Rightarrow> int) \<Rightarrow> 'a \<Rightarrow> 'a list \<Rightarrow> 'a list" where
  "insert_cmp c x [] = [x]"
| "insert_cmp c x (y # ys) = (if c x y \<le> 0 then x # y # ys else y # insert_cmp c x ys)"

fun sort_cmp :: "('a \<Rightarrow> 'a \<Rightarrow> int) \<Rightarrow> 'a list \<Rightarrow> 'a list" where
  "sort_cmp c [] = []"
| "sort_cmp c (x # xs) = insert_cmp c x (sort_cmp c xs)"

record reassignment =
  ra_proxyGroupId :: nat
  ra_proxyUrl :: "string option"
  ra_currentLoad :: nat
  ra_successRate :: rat

definition availableGroups :: "nat list \<Rightarrow> pool \<Rightarrow> nat list" where
  "availableGroups excludeGroupIds p =
     filter (\<lambda>i. let g = proxyGroups p ! i
                 in if group_id g \<in> set excludeGroupIds then False
                    else if excludeFailed (retryConfig p) \<and> group_id g \<in> failedProxies p then False
                    else int (length (bots g)) < maxRequestsPerProxy p)
            [0..<length (proxyGroups p)]"

definition reassignBot :: "nat \<Rightarrow> nat list \<Rightarrow> pool \<Rightarrow> pool \<times> reassignment option" where
  "reassignBot b excludeGroupIds p =
     (let p1 = (case botToGroupMap p b of Some gi \<Rightarrow> removeBot gi b p | None \<Rightarrow> p);
          avail = availableGroups excludeGroupIds p1
      in if length avail = 0 then (p1, None)
         else
           let newGroup = hd (sort_cmp (group_cmp (proxyGroups p1)) avail);
               p2 = addBot newGroup b p1;
               p3 = p2\<lparr>botToGroupMap := (botToGroupMap p2)(b \<mapsto> newGroup)\<rparr>;
               g = proxyGroups p3 ! newGroup
           in (p3, Some \<lparr>ra_proxyGroupId = group_id g, ra_proxyUrl = proxyUrl g,
                         ra_currentLoad = length (bots g), ra_successRate = getSuccessRate g\<rparr>))"

text \<open>
  \<open>handleLoginFailure\<close> returns one of two shapes of object: \<open>{shouldRetry: false}\<close>, or
  \<open>{shouldRetry: true, newProxy, retryDelay, retryCount}\<close>.
\<close>

datatype retry_info = NoRetry | Retry "reassignment option" int int

definition getRetryCount :: "pool \<Rightarrow> nat \<Rightarrow> int" where
  "getRetryCount p b = (case botRetryCount p b of Some n \<Rightarrow> n | None \<Rightarrow> 0)"

text \<open>
  The first block of \<open>handleLoginFailure\<close>: the failure is recorded against the group
  of the session, and the group is marked failed after more than five failures with a
  success rate below 0.3. It runs before the reason is looked at.
\<close>

definition chargeLoginFailure :: "nat option \<Rightarrow> pool \<Rightarrow> pool" where
  "chargeLoginFailure grp p =
     (case grp of
        Some gi \<Rightarrow>
          let g = recordLoginFailure (proxyGroups p ! gi);
              p' = p\<lparr>proxyGroups := (proxyGroups p)[gi := g]\<rparr>
          in if loginFailures g > 5 \<and> getSuccessRate g < 3 / 10
             then p'\<lparr>failedProxies := insert (group_id g) (failedProxies p')\<rparr>
             else p'
      | None \<Rightarrow> p)"

definition handleLoginFailure :: "nat \<Rightarrow> string \<Rightarrow> pool \<Rightarrow> pool \<times> retry_info" where
  "handleLoginFailure b reason p =
     (let grp = botToGroupMap p b;
          p1 = chargeLoginFailure grp p
      in if \<not> enabled (retryConfig p1) then (p1, NoRetry)
         else if reason = ''steamguard'' then
           (let retryCount = getRetryCount p1 b
            in if retryCount \<ge> maxRetries (retryConfig p1) then (p1, NoRetry)
               else
                 let p2 = p1\<lparr>botRetryCount := (botRetryCount p1)(b \<mapsto> retryCount + 1)\<rparr>;
                     excludeGroups = (case grp of
                                        Some gi \<Rightarrow> [group_id (proxyGroups p2 ! gi)]
                                      | None \<Rightarrow> []);
                     (p3, reassigned) = reassignBot b excludeGroups p2
                 in (case reassigned of
                       None \<Rightarrow> (p3, Retry None 10000 (retryCount + 1))
                     | Some r \<Rightarrow> (p3, Retry (Some r) 10000 (retryCount + 1))))
         else
           (let retryCount = getRetryCount p1 b
            in if retryCount \<ge> maxRetries (retryConfig p1) then (p1, NoRetry)
               else
                 let p2 = p1\<lparr>botRetryCount := (botRetryCount p1)(b \<mapsto> retryCount + 1)\<rparr>;
                     excludeGroups = (case grp of
                                        Some gi \<Rightarrow> [group_id (proxyGroups p2 ! gi)]
                                      | None \<Rightarrow> []);
                     (p3, reassigned) = reassignBot b excludeGroups p2
                 in (case reassigned of
                       None \<Rightarrow> (p3, NoRetry)
                     | Some r \<Rightarrow>
                         (p3, Retry (Some r) (retryDelay (retryConfig p3)) (retryCount + 1)))))"

definition handleLoginSuccess :: "nat \<Rightarrow> pool \<Rightarrow> pool" where
  "handleLoginSuccess b p =
     (let p1 = (case botToGroupMap p b of
                  Some gi \<Rightarrow>
                    p\<lparr>proxyGroups := (proxyGroups p)[gi := recordLoginSuccess (proxyGroups p ! gi)]\<rparr>
                | None \<Rightarrow> p)
      in p1\<lparr>botRetryCount := (botRetryCount p1)(b := None)\<rparr>)"

section \<open>The supervisor: BotController.handleBotLoginFailure\<close>

text \<open>
  What the controller does after a \<open>loginFailed\<close> event is returned as a value:
  \<open>ScheduleRetry delay newProxy\<close> is the \<open>setTimeout\<close> of \<open>delay\<close> milliseconds whose
  callback rebinds the session to \<open>newProxy\<close> (when there is one) and calls \<open>logIn\<close>
  again; \<open>MarkAccountFailed\<close> is the call of \<open>markAccountFailed\<close>; \<open>GiveUp\<close> is the plain
  return. \<open>proxyPoolManager\<close> is \<open>None\<close> when the controller has no pool. Delays are
  JavaScript numbers: \<open>Math.pow(2, k)\<close> is a fraction for a negative \<open>k\<close>.
\<close>

datatype login_decision = ScheduleRetry rat "reassignment option" | MarkAccountFailed | GiveUp

definition math_pow2 :: "int \<Rightarrow> rat" where
  "math_pow2 k = (if 0 \<le> k then 2 ^ nat k else 1 / 2 ^ nat (- k))"

definition handleBotLoginFailure ::
  "pool option \<Rightarrow> nat \<Rightarrow> string \<Rightarrow> pool option \<times> login_decision" where
  "handleBotLoginFailure proxyPoolManager b reason =
     (if reason = ''steamguard'' then
        (case proxyPoolManager of
           Some p \<Rightarrow>
             (case handleLoginFailure b reason p of
                (p', Retry (Some r) retryDelay' retryCount) \<Rightarrow>
                  (Some p', ScheduleRetry 15000 (Some r))
              | (p', _) \<Rightarrow> (Some p', GiveUp))
         | None \<Rightarrow> (None, GiveUp))
      else
        (case proxyPoolManager of
           None \<Rightarrow> (None, GiveUp)
         | Some p \<Rightarrow>
             (case handleLoginFailure b reason p of
                (p', NoRetry) \<Rightarrow> (Some p', MarkAccountFailed)
              | (p', Retry newProxy retryDelay' retryCount) \<Rightarrow>
                  let delay = (if reason = ''ratelimit''
                               then min (30000 * math_pow2 (retryCount - 1)) 120000
                               else if reason = ''proxy'' then 10000
                               else of_int retryDelay')
                  in (Some p', ScheduleRetry delay newProxy))))"

section \<open>The request queue: class Queue\<close>

text \<open>
  What the handler's promise is rejected with: the object \<open>errors.NoBotsAvailable\<close>
  (compared by identity in \<open>checkQueue\<close>), or anything else, such as the strings the
  session rejects with.
\<close>

datatype handler_error = NoBotsAvailable | OtherError string

text \<open>
  A per-client counter of \<open>users\<close>. \<open>users[ip]--\<close> on a property that is missing stores
  \<open>NaN\<close>.
\<close>

datatype counter = Count int | NaN

record queue_entry =
  data :: string
  max_attempts :: int
  attempts :: int
  ip :: string

record queue_state =
  queue :: "queue_entry list"
  users :: "string \<rightharpoonup> counter"
  running :: bool
  processing :: int
  concurrency :: int
  jobFailed :: "(queue_entry \<times> handler_error) list"

definition size_queue :: "queue_state \<Rightarrow> int" where
  "size_queue q = int (length (queue q))"

definition getUserQueuedAmt :: "queue_state \<Rightarrow> string \<Rightarrow> int" where
  "getUserQueuedAmt q client =
     (case users q client of Some (Count n) \<Rightarrow> (if n \<noteq> 0 then n else 0) | _ \<Rightarrow> 0)"

definition decrement_user :: "(string \<rightharpoonup> counter) \<Rightarrow> string \<Rightarrow> (string \<rightharpoonup> counter)" where
  "decrement_user u client =
     u(client \<mapsto> (case u client of Some (Count n) \<Rightarrow> Count (n - 1) | _ \<Rightarrow> NaN))"

text \<open>
  \<open>checkQueue\<close> up to the call of the handler. \<open>poolOk\<close> is \<open>None\<close> when there is no
  controller with a proxy pool, else the value of \<open>canAcceptMoreRequests()\<close>. The result
  carries the entry handed to the handler, if one was started.
\<close>

definition checkQueue :: "bool option \<Rightarrow> queue_state \<Rightarrow> queue_state \<times> queue_entry option" where
  "checkQueue poolOk q =
     (if \<not> running q then (q, None)
      else if poolOk = Some False then (q, None)
      else
        (case queue q of
           [] \<Rightarrow> (q, None)
         | job # rest \<Rightarrow>
             if processing q < concurrency q
             then (q\<lparr>queue := rest, processing := processing q + 1\<rparr>, Some job)
             else (q, None)))"

text \<open>The \<open>then\<close> callback: the handler resolved.\<close>

definition checkQueue_resolved :: "queue_entry \<Rightarrow> queue_state \<Rightarrow> queue_state" where
  "checkQueue_resolved job q = q\<lparr>users := decrement_user (users q) (ip job)\<rparr>"

text \<open>The \<open>catch\<close> callback: the handler rejected with \<open>err\<close>.\<close>

definition checkQueue_rejected ::
  "queue_entry \<Rightarrow> handler_error \<Rightarrow> queue_state \<Rightarrow> queue_state" where
  "checkQueue_rejected job err q =
     (let job' = (if err \<noteq> NoBotsAvailable then job\<lparr>attempts := attempts job + 1\<rparr> else job)
      in if attempts job' = max_attempts job'
         then q\<lparr>jobFailed := jobFailed q @ [(job', err)],
                users := decrement_user (users q) (ip job')\<rparr>
         else q\<lparr>queue := job' # queue q\<rparr>)"

text \<open>The last \<open>then\<close> callback, after either of the two.\<close>

definition checkQueue_settled ::
  "bool option \<Rightarrow> queue_state \<Rightarrow> queue_state \<times> queue_entry option" where
  "checkQueue_settled poolOk q = checkQueue poolOk (q\<lparr>processing := processing q - 1\<rparr>)"

section \<open>Admission: handleJob\<close>

text \<open>
  The admission checks of \<open>handleJob\<close>, after the cache pass has filled in the links
  that are known. \<open>online\<close> is \<open>botController.hasBotOnline()\<close>, \<open>remaining\<close> is
  \<open>job.remainingSize()\<close>. A limit that is not configured compares as not greater than
  0, like the limit 0.
\<close>

record config =
  max_simultaneous_requests :: int
  max_queue_size :: int

datatype api_error = SteamOffline | MaxRequests | MaxQueueSize

datatype job_outcome = SetResponseRemaining api_error | AddJob | NothingQueued

definition hasBotOnline :: "bot list \<Rightarrow> bool" where
  "hasBotOnline bs = list_ex ready bs"

definition handleJob :: "config \<Rightarrow> bool \<Rightarrow> queue_state \<Rightarrow> string \<Rightarrow> int \<Rightarrow> job_outcome" where
  "handleJob cfg online q client remaining =
     (if \<not> online then SetResponseRemaining SteamOffline
      else if max_simultaneous_requests cfg > 0 \<and>
              getUserQueuedAmt q client + remaining > max_simultaneous_requests cfg
           then SetResponseRemaining MaxRequests
      else if max_queue_size cfg > 0 \<and> size_queue q + remaining > max_queue_size cfg
           then SetResponseRemaining MaxQueueSize
      else if remaining > 0 then AddJob
      else NothingQueued)"

definition accepted :: "job_outcome \<Rightarrow> bool" where
  "accepted r = (case r of SetResponseRemaining e \<Rightarrow> False | _ \<Rightarrow> True)"

section \<open>Concrete states\<close>

text \<open>
  The constructor of \<open>Bot\<close> with the two settings the session reads, and a pool as the
  constructor of \<open>ProxyPoolManager\<close> builds it from two proxies, the limit of three
  requests per proxy, the cooldown of 100 ms and the default retry configuration.
\<close>

definition newBot :: "int \<Rightarrow> int \<Rightarrow> bot" where
  "newBot delay ttl =
     \<lparr>ready_flag = False, busy = False, currentRequest = None, resolve = None, reject = None,
      ttlTimeout = None, request_delay = delay, request_ttl = ttl, proxyGroupId = None,
      promises = [], timers = [], gcInspects = [], username = None, user = None,
      password = None, auth = None, loginData = None, needsSteamGuard = False,
      logOnCalls = []\<rparr>"

definition defaultRetryConfig :: retry_config where
  "defaultRetryConfig = \<lparr>enabled = True, maxRetries = 3, excludeFailed = True, retryDelay = 5000\<rparr>"

definition pool0 :: pool where
  "pool0 = newProxyPoolManager (Some [''http://p0'', ''socks5://p1'']) 3 100 defaultRetryConfig
             (\<lambda>b. newBot 1100 2000)"

definition emptyQueue :: queue_state where
  "emptyQueue = \<lparr>queue = [], users = Map.empty, running = True, processing = 0,
                 concurrency = 1, jobFailed = []\<rparr>"

text \<open>
  A ready session with a request in flight (issued at time 1000 for asset 111 of a market
  link), and the reply of the normalization law of the specification.
\<close>

definition bot_ready :: bot where
  "bot_ready = (newBot 1100 2000)\<lparr>ready_flag := True\<rparr>"

definition bot_inflight :: bot where
  "bot_inflight = snd (sendFloatRequest bot_ready 1000 ''0'' ''111'' ''1'' ''222'')"

definition reply0 :: jsobj where
  "reply0 = [(''itemid'', JStr ''111''), (''paintseed'', JNull), (''paintwear'', JNum (123 / 1000)),
             (''stickers'', JArr [JObj [(''sticker_id'', JNum 5)]] [])]"

text \<open>Two queue entries of one client, as in the scenario "retry jumps queue".\<close>

definition entryX :: queue_entry where
  "entryX = \<lparr>data = ''X'', max_attempts = 3, attempts = 0, ip = ''1.2.3.4''\<rparr>"

definition entryY :: queue_entry where
  "entryY = \<lparr>data = ''Y'', max_attempts = 3, attempts = 0, ip = ''1.2.3.4''\<rparr>"

definition queueY :: queue_state where
  "queueY = emptyQueue\<lparr>queue := [entryY], users := [''1.2.3.4'' \<mapsto> Count 2], processing := 1\<rparr>"

text \<open>
  Session 0 bound to the first proxy group and logged in once; and the same pool after
  the group has seen two successful logins and five failed ones.
\<close>

definition pool1 :: pool where
  "pool1 = handleLoginSuccess 0 (distributeBots [0] pool0)"

definition pool_sg :: pool where
  "pool_sg = pool1\<lparr>proxyGroups :=
               (proxyGroups pool1)[0 := (proxyGroups pool1 ! 0)\<lparr>successfulLogins := 2,
                                                                loginFailures := 5\<rparr>]\<rparr>"

text \<open>
  The pool \<open>pool1\<close> after the login of session 0 has failed for \<open>reason\<close>, and the
  binding to the second proxy group that the pool then hands out.
\<close>

definition pool1_retried :: "string \<Rightarrow> pool" where
  "pool1_retried reason = fst (handleLoginFailure 0 reason pool1)"

definition group1_binding :: reassignment where
  "group1_binding = \<lparr>ra_proxyGroupId = 1, ra_proxyUrl = Some ''socks5://p1'',
       ra_currentLoad = 1, ra_successRate = 0\<rparr>"

text \<open>A stand-in for the one-time code generator that returns the same code at any time.\<close>

definition fixedAuthCode :: "string \<Rightarrow> string option" where
  "fixedAuthCode secret = Some ''R2D2X''"

text \<open>
  Four sessions on the two proxies: sessions 0 and 1 of the first group are logged in but
  not ready yet, sessions 2 and 3 of the second group are ready. Session 2 is selected at
  time 1000 and is busy with its request from then on.
\<close>

definition heap_c :: "nat \<Rightarrow> bot" where
  "heap_c = (\<lambda>b. newBot 1100 2000)(2 := bot_ready, 3 := bot_ready)"

definition pool_c0 :: pool where
  "pool_c0 = distributeBots [0, 1, 2, 3] (pool0\<lparr>heap := heap_c\<rparr>)"

definition pool_c1 :: pool where
  "pool_c1 = snd (getAvailableBot ''least_loaded'' 1000 pool_c0)"

definition pool_c :: pool where
  "pool_c = pool_c1\<lparr>heap := (heap pool_c1)
              (2 := snd (sendFloatRequest (heap pool_c1 2) 1000 ''0'' ''111'' ''1'' ''222''))\<rparr>"

section \<open>Predicates of the statements\<close>

fun is_obj :: "jsval \<Rightarrow> bool" where
  "is_obj (JObj ob) = True"
| "is_obj _ = False"

text \<open>
  \<open>y\<close> is the sticker \<open>x\<close> with \<open>sticker_id\<close> renamed to \<open>stickerId\<close>: the new property
  holds the old value, the old property is gone, every other property is as before.
\<close>

definition sticker_renamed :: "jsval \<Rightarrow> jsval \<Rightarrow> bool" where
  "sticker_renamed x y =
     (\<exists>st st'. x = JObj st \<and> y = JObj st' \<and>
        obj_get st' ''stickerId'' = obj_get st ''sticker_id'' \<and>
        map_of st' ''sticker_id'' = None \<and>
        (\<forall>k. k \<noteq> ''stickerId'' \<and> k \<noteq> ''sticker_id'' \<longrightarrow> obj_get st' k = obj_get st k))"

text \<open>
  The binding invariant of the pool, on the lists of sessions of the groups and the map
  from sessions to groups: no list holds a session twice, every session of a list is
  mapped to the group of that list, and the map points at groups that exist.
\<close>

definition bots_inv :: "nat list list \<Rightarrow> (nat \<rightharpoonup> nat) \<Rightarrow> bool" where
  "bots_inv bss m =
     ((\<forall>i<length bss. distinct (bss ! i)) \<and>
      (\<forall>i<length bss. \<forall>b\<in>set (bss ! i). m b = Some i) \<and>
      (\<forall>b i. m b = Some i \<longrightarrow> i < length bss))"

definition pool_inv :: "pool \<Rightarrow> bool" where
  "pool_inv p = bots_inv (map bots (proxyGroups p)) (botToGroupMap p)"

text \<open>Every session is in the list of at most one group, and at most once there.\<close>

definition in_at_most_one_group :: "pool \<Rightarrow> bool" where
  "in_at_most_one_group p =
     ((\<forall>b i j. i < length (proxyGroups p) \<and> j < length (proxyGroups p) \<and>
               b \<in> set (bots (proxyGroups p ! i)) \<and> b \<in> set (bots (proxyGroups p ! j))
               \<longrightarrow> i = j) \<and>
      (\<forall>i<length (proxyGroups p). distinct (bots (proxyGroups p ! i))))"

text \<open>
  The states of the pool that the program reaches: the constructor, then any sequence of
  the public operations. \<open>distributeBots\<close> is called with the list of sessions of the
  controller, which holds every session once (each is pushed right after it is
  created). \<open>addBot\<close> and \<open>removeBot\<close> of a group are called by \<open>distributeBots\<close> and
  \<open>reassignBot\<close> only. The sessions change their own state between the calls.
\<close>

inductive reachable :: "pool \<Rightarrow> bool" where
  construct: "reachable (newProxyPoolManager src maxReq cooldown rc h)"
| distribute: "reachable p \<Longrightarrow> distinct bs \<Longrightarrow> reachable (distributeBots bs p)"
| reassign: "reachable p \<Longrightarrow> reachable (fst (reassignBot b ex p))"
| loginFailure: "reachable p \<Longrightarrow> reachable (fst (handleLoginFailure b reason p))"
| loginSuccess: "reachable p \<Longrightarrow> reachable (handleLoginSuccess b p)"
| select: "reachable p \<Longrightarrow> reachable (snd (getAvailableBot strategy now p))"
| release: "reachable p \<Longrightarrow> reachable (releaseBot b success p)"
| sessions: "reachable p \<Longrightarrow> reachable (p\<lparr>heap := h\<rparr>)"

text \<open>
  A group that the least-loaded loop can select at time \<open>now\<close>: it accepts a request and
  one of its sessions is available.
\<close>

definition selectable :: "pool \<Rightarrow> int \<Rightarrow> nat \<Rightarrow> bool" where
  "selectable p now i =
     (canAcceptRequest (proxyGroups p ! i) (maxRequestsPerProxy p) (requestCooldown p) now \<and>
      group_getAvailableBot (heap p) (proxyGroups p ! i) \<noteq> None)"

section \<open>Properties of the session\<close>

lemma obj_get_set: "obj_get (obj_set k v ob) k' = (if k' = k then v else obj_get ob k')"
  by (simp add: obj_get_def obj_set_def update_conv')

lemma obj_get_delete:
  "obj_get (obj_delete k ob) k' = (if k' = k then JUndefined else obj_get ob k')"
  by (simp add: obj_get_def obj_delete_def delete_conv')

lemma map_of_obj_delete: "map_of (obj_delete k ob) k = None"
  by (simp add: obj_delete_def delete_conv')

lemma normalize_paintseed:
  "obj_get (normalize_iteminfo rq info) ''paintseed'' =
     (if truthy (obj_get info ''paintseed'') then obj_get info ''paintseed'' else JNum 0)"
  by (simp add: normalize_iteminfo_def Let_def obj_get_set obj_get_delete)

lemma normalize_floatvalue:
  "obj_get (normalize_iteminfo rq info) ''floatvalue'' = obj_get info ''paintwear''"
  by (simp add: normalize_iteminfo_def Let_def obj_get_set obj_get_delete)

lemma normalize_paintwear: "map_of (normalize_iteminfo rq info) ''paintwear'' = None"
  by (simp add: normalize_iteminfo_def Let_def map_of_obj_delete)

lemma normalize_stickers:
  "obj_get (normalize_iteminfo rq info) ''stickers'' = obj_get info ''stickers''"
  by (simp add: normalize_iteminfo_def Let_def obj_get_set obj_get_delete)

lemma rename_sticker_obj: "is_obj x \<Longrightarrow> \<exists>y. rename_sticker x = Some y \<and> sticker_renamed x y"
  by (cases x) (auto simp: sticker_renamed_def obj_get_set obj_get_delete map_of_obj_delete)

lemma rename_stickers_objs:
  "list_all is_obj xs \<Longrightarrow> \<exists>ys. rename_stickers xs = Some ys \<and> list_all2 sticker_renamed xs ys"
proof (induction xs)
  case Nil
  then show ?case by simp
next
  case (Cons x xs)
  from Cons.prems obtain y where y: "rename_sticker x = Some y" "sticker_renamed x y"
    using rename_sticker_obj by auto
  from Cons obtain ys where ys: "rename_stickers xs = Some ys" "list_all2 sticker_renamed xs ys"
    by auto
  from y ys show ?case by simp
qed

lemma fire_timer_None_iff:
  "fire_timer b t k = None \<longleftrightarrow>
     \<not> (k < length (timers b) \<and> snd (snd (timers b ! k)) = Armed \<and> fst (timers b ! k) \<le> t)"
  by (simp add: fire_timer_def split: prod.splits)

lemma clearTimeout_nth:
  "k < length (timers b) \<Longrightarrow>
   timers (clearTimeout h b) ! k =
     (if k = h \<and> snd (snd (timers b ! k)) = Armed
      then (fst (timers b ! k), fst (snd (timers b ! k)), Cleared)
      else timers b ! k)"
  by (auto simp: clearTimeout_def nth_list_update)

lemma clearTimeout_length: "length (timers (clearTimeout h b)) = length (timers b)"
  by (simp add: clearTimeout_def)

text \<open>
  The first step of a completing reply, the disarming of the TTL timer: the timer behind
  \<open>ttlTimeout\<close> is not armed afterwards, and every other timer is as it was.
\<close>

lemma disarm_ttl_handle:
  assumes b1: "b1 = (case ttlTimeout b of
                       Some h \<Rightarrow> (clearTimeout h b)\<lparr>ttlTimeout := None\<rparr>
                     | None \<Rightarrow> b)"
  shows "ttlTimeout b1 = None"
  by (cases "ttlTimeout b") (simp_all add: b1)

lemma disarm_ttl_timer:
  assumes b1: "b1 = (case ttlTimeout b of
                       Some h \<Rightarrow> (clearTimeout h b)\<lparr>ttlTimeout := None\<rparr>
                     | None \<Rightarrow> b)"
    and k: "k < length (timers b)" and ttl: "ttlTimeout b = Some k"
  shows "snd (snd (timers b1 ! k)) \<noteq> Armed"
proof -
  from ttl have "timers b1 ! k = timers (clearTimeout k b) ! k" by (simp add: b1)
  also have "\<dots> = (if snd (snd (timers b ! k)) = Armed
                   then (fst (timers b ! k), fst (snd (timers b ! k)), Cleared)
                   else timers b ! k)"
    using k by (simp add: clearTimeout_nth)
  finally show ?thesis by (cases "snd (snd (timers b ! k)) = Armed") simp_all
qed

lemma disarm_ttl_others:
  assumes b1: "b1 = (case ttlTimeout b of
                       Some h \<Rightarrow> (clearTimeout h b)\<lparr>ttlTimeout := None\<rparr>
                     | None \<Rightarrow> b)"
    and k: "k < length (timers b)" and other: "ttlTimeout b \<noteq> Some k"
  shows "timers b1 ! k = timers b ! k"
proof (cases "ttlTimeout b")
  case None
  then show ?thesis by (simp add: b1)
next
  case (Some h)
  with other have "k \<noteq> h" by simp
  with Some k show ?thesis by (simp add: b1 clearTimeout_nth)
qed

text \<open>
  Claim C4. A reply for the asset of the current request, while the promise of the request
  is pending: the handler returns; the promise is resolved with the normalized item and
  the delay \<open>max 0 (request_delay - (now - issue time))\<close>; \<open>paintseed\<close> is 0 when the
  reply had none, \<open>floatvalue\<close> holds what \<open>paintwear\<close> held and \<open>paintwear\<close> is gone,
  every sticker has \<open>sticker_id\<close> renamed to \<open>stickerId\<close>; \<open>busy\<close> is untouched by the
  handler, and the timer that clears it is armed for \<open>now + delay\<close>: it cannot fire
  earlier and clears \<open>busy\<close> when it fires. Nothing else clears \<open>busy\<close> before: the TTL
  timer of the request is disarmed and can never fire; a timer that can fire after the
  handler is the new one, at \<open>now + delay\<close> or later, or one that was armed before and is
  not the TTL timer; so where the TTL timer was the only armed timer, as it is while a
  request is in flight, no timer at all fires before \<open>now + delay\<close>; and the handlers of a
  GC timeout and of a further reply leave the session as it is. A reply for another asset
  changes nothing. The stickers of a reply are an array of objects, as the decoder of
  the upstream library delivers them.
\<close>

theorem inspectItemInfo_completion:
  assumes rs: "resolve b = Some pid" and cr: "currentRequest b = Some rq"
  shows "(pid < length (promises b) \<and> promises b ! pid = Pending \<and>
          obj_get reply ''itemid'' = JStr (req_a rq) \<and>
          obj_get reply ''stickers'' = JArr ss ps \<and> list_all is_obj ss \<longrightarrow>
          (\<exists>b' info ss' delay.
             inspectItemInfo b now reply = Returned b' \<and>
             delay = max 0 (request_delay b - (now - req_time rq)) \<and>
             promises b' ! pid =
               Resolved (JObj [(''iteminfo'', JObj info), (''delay'', JNum (of_int delay))]) \<and>
             obj_get info ''paintseed'' =
               (if truthy (obj_get reply ''paintseed'') then obj_get reply ''paintseed''
                else JNum 0) \<and>
             obj_get info ''floatvalue'' = obj_get reply ''paintwear'' \<and>
             map_of info ''paintwear'' = None \<and>
             obj_get info ''stickers'' = JArr ss' ps \<and> list_all2 sticker_renamed ss ss' \<and>
             busy b' = busy b \<and> resolve b' = None \<and> currentRequest b' = None \<and>
             timers b' ! length (timers b) = (now + delay, ClearBusy, Armed) \<and>
             (\<forall>t. t < now + delay \<longrightarrow> fire_timer b' t (length (timers b)) = None) \<and>
             (\<forall>t. now + delay \<le> t \<longrightarrow>
                (\<exists>b''. fire_timer b' t (length (timers b)) = Some b'' \<and> \<not> busy b'')) \<and>
             ttlTimeout b' = None \<and>
             (\<forall>h t. ttlTimeout b = Some h \<and> h < length (timers b) \<longrightarrow>
                fire_timer b' t h = None) \<and>
             (\<forall>k t. fire_timer b' t k \<noteq> None \<longrightarrow>
                (k = length (timers b) \<and> now + delay \<le> t) \<or>
                (k < length (timers b) \<and> ttlTimeout b \<noteq> Some k \<and> fire_timer b t k \<noteq> None)) \<and>
             ((\<forall>k<length (timers b). snd (snd (timers b ! k)) = Armed \<longrightarrow> ttlTimeout b = Some k)
                \<longrightarrow> (\<forall>k t. t < now + delay \<longrightarrow> fire_timer b' t k = None)) \<and>
             inspectItemTimedOut b' = b' \<and>
             (\<forall>t r. inspectItemInfo b' t r = Returned b')))
       \<and> (obj_get reply ''itemid'' \<noteq> JStr (req_a rq) \<longrightarrow> inspectItemInfo b now reply = Returned b)"
proof (intro conjI impI)
  assume "obj_get reply ''itemid'' \<noteq> JStr (req_a rq)"
  then show "inspectItemInfo b now reply = Returned b"
    using rs cr by (simp add: inspectItemInfo_def)
next
  assume h: "pid < length (promises b) \<and> promises b ! pid = Pending \<and>
          obj_get reply ''itemid'' = JStr (req_a rq) \<and>
          obj_get reply ''stickers'' = JArr ss ps \<and> list_all is_obj ss"
  then obtain ss' where ss': "rename_stickers ss = Some ss'" "list_all2 sticker_renamed ss ss'"
    using rename_stickers_objs by blast
  define b1 where "b1 = (case ttlTimeout b of
                        Some h \<Rightarrow> (clearTimeout h b)\<lparr>ttlTimeout := None\<rparr>
                      | None \<Rightarrow> b)"
  have b1: "promises b1 = promises b" "busy b1 = busy b" "length (timers b1) = length (timers b)"
     "request_delay b1 = request_delay b"
    by (auto simp: b1_def clearTimeout_def split: option.splits)
  define delay where "delay = max 0 (request_delay b - (now - req_time rq))"
  define info where "info = obj_set ''stickers'' (JArr ss' ps) (normalize_iteminfo rq reply)"
  define b' where "b' = snd (setTimeout ClearBusy delay now
       ((settle pid (Resolved (JObj [(''iteminfo'', JObj info),
                                     (''delay'', JNum (of_int delay))])) b1)
          \<lparr>resolve := None, currentRequest := None\<rparr>))"
  have run: "inspectItemInfo b now reply = Returned b'"
    using rs cr h ss'
    by (simp add: inspectItemInfo_def Let_def normalize_stickers b1_def[symmetric] b'_def info_def
        delay_def max_def b1)
  have p: "promises b' ! pid =
               Resolved (JObj [(''iteminfo'', JObj info), (''delay'', JNum (of_int delay))])"
    using h b1 by (simp add: b'_def setTimeout_def settle_def)
  have tb': "timers b' = timers b1 @ [(now + delay, ClearBusy, Armed)]"
    by (simp add: b'_def setTimeout_def settle_def)
  have t: "timers b' ! length (timers b) = (now + delay, ClearBusy, Armed)"
    using b1 by (simp add: tb' nth_append)
  have tl: "length (timers b') = Suc (length (timers b))"
    using b1 by (simp add: tb')
  have old: "timers b' ! k = timers b1 ! k" if "k < length (timers b)" for k
    using that b1 by (simp add: tb' nth_append)
  have f1: "\<forall>t. t < now + delay \<longrightarrow> fire_timer b' t (length (timers b)) = None"
    using t tl by (simp add: fire_timer_def)
  have f2: "\<forall>t. now + delay \<le> t \<longrightarrow>
                (\<exists>b''. fire_timer b' t (length (timers b)) = Some b'' \<and> \<not> busy b'')"
    using t tl by (simp add: fire_timer_def run_timer_action_def)
  have st: "busy b' = busy b" "resolve b' = None" "currentRequest b' = None"
    using b1 by (simp_all add: b'_def setTimeout_def settle_def)
  have tt: "ttlTimeout b' = None"
    using disarm_ttl_handle [OF b1_def] by (simp add: b'_def setTimeout_def settle_def)
  have ttl_dead: "fire_timer b' t k = None" if "ttlTimeout b = Some k" "k < length (timers b)" for k t
  proof -
    from disarm_ttl_timer [OF b1_def that(2) that(1)]
    have "snd (snd (timers b' ! k)) \<noteq> Armed" using old [OF that(2)] by simp
    then show ?thesis by (simp add: fire_timer_None_iff)
  qed
  have origin: "(k = length (timers b) \<and> now + delay \<le> t) \<or>
                (k < length (timers b) \<and> ttlTimeout b \<noteq> Some k \<and> fire_timer b t k \<noteq> None)"
    if fire: "fire_timer b' t k \<noteq> None" for k t
  proof -
    from fire have a: "k < Suc (length (timers b))" "snd (snd (timers b' ! k)) = Armed"
      "fst (timers b' ! k) \<le> t"
      by (simp_all add: fire_timer_None_iff tl)
    show ?thesis
    proof (cases "k = length (timers b)")
      case True
      with a(3) t show ?thesis by simp
    next
      case False
      with a(1) have k: "k < length (timers b)" by simp
      have nt: "ttlTimeout b \<noteq> Some k"
      proof
        assume "ttlTimeout b = Some k"
        from ttl_dead [OF this k, of t] fire show False by simp
      qed
      from disarm_ttl_others [OF b1_def k nt] old [OF k]
      have "timers b' ! k = timers b ! k" by simp
      with a(2,3) k have "fire_timer b t k \<noteq> None" by (simp add: fire_timer_None_iff)
      with k nt show ?thesis by simp
    qed
  qed
  have quiet: "\<forall>k t. t < now + delay \<longrightarrow> fire_timer b' t k = None"
    if only: "\<forall>k<length (timers b). snd (snd (timers b ! k)) = Armed \<longrightarrow> ttlTimeout b = Some k"
  proof (intro allI impI)
    fix k t assume early: "t < now + delay"
    show "fire_timer b' t k = None"
    proof (rule ccontr)
      assume "fire_timer b' t k \<noteq> None"
      from origin [OF this] early
      have k: "k < length (timers b)" and nt: "ttlTimeout b \<noteq> Some k"
        and fb: "fire_timer b t k \<noteq> None"
        by auto
      from fb have "snd (snd (timers b ! k)) = Armed" by (simp add: fire_timer_None_iff)
      with only k have "ttlTimeout b = Some k" by blast
      with nt show False by simp
    qed
  qed
  have e1: "inspectItemTimedOut b' = b'"
    using st by (simp add: inspectItemTimedOut_def)
  have e2: "\<forall>t r. inspectItemInfo b' t r = Returned b'"
    using st by (simp add: inspectItemInfo_def)
  have i1: "obj_get info ''paintseed'' =
               (if truthy (obj_get reply ''paintseed'') then obj_get reply ''paintseed''
                else JNum 0)"
    by (simp add: info_def obj_get_set normalize_paintseed)
  have i2: "obj_get info ''floatvalue'' = obj_get reply ''paintwear''"
    by (simp add: info_def obj_get_set normalize_floatvalue)
  have i3: "map_of info ''paintwear'' = None"
    by (simp add: info_def obj_set_def update_conv' normalize_paintwear)
  have i4: "obj_get info ''stickers'' = JArr ss' ps"
    by (simp add: info_def obj_get_set)
  have c1: "\<forall>h t. ttlTimeout b = Some h \<and> h < length (timers b) \<longrightarrow> fire_timer b' t h = None"
    using ttl_dead by blast
  have c2: "\<forall>k t. fire_timer b' t k \<noteq> None \<longrightarrow>
                (k = length (timers b) \<and> now + delay \<le> t) \<or>
                (k < length (timers b) \<and> ttlTimeout b \<noteq> Some k \<and> fire_timer b t k \<noteq> None)"
    using origin by blast
  have c3: "(\<forall>k<length (timers b). snd (snd (timers b ! k)) = Armed \<longrightarrow> ttlTimeout b = Some k)
                \<longrightarrow> (\<forall>k t. t < now + delay \<longrightarrow> fire_timer b' t k = None)"
    using quiet by blast
  show "\<exists>b' info ss' delay.
             inspectItemInfo b now reply = Returned b' \<and>
             delay = max 0 (request_delay b - (now - req_time rq)) \<and>
             promises b' ! pid =
               Resolved (JObj [(''iteminfo'', JObj info), (''delay'', JNum (of_int delay))]) \<and>
             obj_get info ''paintseed'' =
               (if truthy (obj_get reply ''paintseed'') then obj_get reply ''paintseed''
                else JNum 0) \<and>
             obj_get info ''floatvalue'' = obj_get reply ''paintwear'' \<and>
             map_of info ''paintwear'' = None \<and>
             obj_get info ''stickers'' = JArr ss' ps \<and> list_all2 sticker_renamed ss ss' \<and>
             busy b' = busy b \<and> resolve b' = None \<and> currentRequest b' = None \<and>
             timers b' ! length (timers b) = (now + delay, ClearBusy, Armed) \<and>
             (\<forall>t. t < now + delay \<longrightarrow> fire_timer b' t (length (timers b)) = None) \<and>
             (\<forall>t. now + delay \<le> t \<longrightarrow>
                (\<exists>b''. fire_timer b' t (length (timers b)) = Some b'' \<and> \<not> busy b'')) \<and>
             ttlTimeout b' = None \<and>
             (\<forall>h t. ttlTimeout b = Some h \<and> h < length (timers b) \<longrightarrow>
                fire_timer b' t h = None) \<and>
             (\<forall>k t. fire_timer b' t k \<noteq> None \<longrightarrow>
                (k = length (timers b) \<and> now + delay \<le> t) \<or>
                (k < length (timers b) \<and> ttlTimeout b \<noteq> Some k \<and> fire_timer b t k \<noteq> None)) \<and>
             ((\<forall>k<length (timers b). snd (snd (timers b ! k)) = Armed \<longrightarrow> ttlTimeout b = Some k)
                \<longrightarrow> (\<forall>k t. t < now + delay \<longrightarrow> fire_timer b' t k = None)) \<and>
             inspectItemTimedOut b' = b' \<and>
             (\<forall>t r. inspectItemInfo b' t r = Returned b')"
    apply (rule exI [of _ b'], rule exI [of _ info], rule exI [of _ ss'], rule exI [of _ delay])
    apply (intro conjI)
    apply (rule run, rule delay_def, rule p, rule i1, rule i2, rule i3, rule i4, rule ss'(2))
    apply (rule st(1), rule st(2), rule st(3), rule t, rule f1, rule f2, rule tt)
    apply (rule c1, rule c2, rule c3, rule e1, rule e2)
    done
qed

text \<open>
  Claim C4 at the reply of the normalization law: issued at 1000 with a request delay of
  1100 and a TTL of 2000, answered at 1500, so the delay is 600 and \<open>busy\<close> clears at
  2100. The TTL timer (handle 0, due at 3000) never fires, and no timer fires before 2100.
\<close>

lemmas bot_defs = bot_inflight_def bot_ready_def newBot_def sendFloatRequest_def
      ready_def setTimeout_def settle_def clearTimeout_def Let_def

theorem inspectItemInfo_completion_witness:
  "resolve bot_inflight = Some 0 \<and>
   currentRequest bot_inflight =
     Some \<lparr>req_s = ''0'', req_a = ''111'', req_d = ''1'', req_m = ''222'', req_time = 1000\<rparr> \<and>
   promises bot_inflight ! 0 = Pending \<and>
   ttlTimeout bot_inflight = Some 0 \<and>
   timers bot_inflight = [(3000, TtlExceeded 0, Armed)] \<and>
   obj_get reply0 ''itemid'' = JStr ''111'' \<and>
   obj_get reply0 ''stickers'' = JArr [JObj [(''sticker_id'', JNum 5)]] [] \<and>
   list_all is_obj [JObj [(''sticker_id'', JNum 5)]] \<and>
   (\<exists>b'. inspectItemInfo bot_inflight 1500 reply0 = Returned b' \<and>
         promises b' ! 0 =
           Resolved (JObj [(''iteminfo'',
                            JObj [(''itemid'', JStr ''111''), (''paintseed'', JNum 0),
                                  (''stickers'', JArr [JObj [(''stickerId'', JNum 5)]] []),
                                  (''s'', JStr ''0''), (''a'', JStr ''111''), (''d'', JStr ''1''),
                                  (''m'', JStr ''222''), (''floatvalue'', JNum (123 / 1000))]),
                           (''delay'', JNum 600)]) \<and>
         busy b' \<and>
         (\<forall>t. t < 2100 \<longrightarrow> fire_timer b' t 1 = None) \<and>
         (\<forall>t. 2100 \<le> t \<longrightarrow> (\<exists>b''. fire_timer b' t 1 = Some b'' \<and> \<not> busy b'')) \<and>
         ttlTimeout b' = None \<and>
         (\<forall>t. fire_timer b' t 0 = None) \<and>
         (\<forall>k t. t < 2100 \<longrightarrow> fire_timer b' t k = None)) \<and>
   inspectItemInfo bot_inflight 1500 (obj_set ''itemid'' (JStr ''999'') reply0) = Returned bot_inflight"
proof -
  let ?rq = "\<lparr>req_s = ''0'', req_a = ''111'', req_d = ''1'', req_m = ''222'', req_time = 1000\<rparr>"
  let ?ss = "[JObj [(''sticker_id'', JNum 5)]]"
  have h1: "resolve bot_inflight = Some 0" by (simp add: bot_defs)
  have h2: "currentRequest bot_inflight = Some ?rq" by (simp add: bot_defs)
  have h3: "0 < length (promises bot_inflight) \<and> promises bot_inflight ! 0 = Pending \<and>
          obj_get reply0 ''itemid'' = JStr (req_a ?rq) \<and>
          obj_get reply0 ''stickers'' = JArr ?ss [] \<and> list_all is_obj ?ss"
    by (simp add: bot_defs reply0_def obj_get_def)
  have h4: "obj_get (obj_set ''itemid'' (JStr ''999'') reply0) ''itemid'' \<noteq> JStr (req_a ?rq)"
    by (simp add: obj_get_set)
  have bt: "busy bot_inflight" "length (timers bot_inflight) = 1" "request_delay bot_inflight = 1100"
    "ttlTimeout bot_inflight = Some 0" "timers bot_inflight = [(3000, TtlExceeded 0, Armed)]"
    by (simp_all add: bot_defs)
  have only: "\<forall>k<length (timers bot_inflight).
                snd (snd (timers bot_inflight ! k)) = Armed \<longrightarrow> ttlTimeout bot_inflight = Some k"
    by (simp add: bt)
  have ev: "\<exists>b'. inspectItemInfo bot_inflight 1500 reply0 = Returned b' \<and>
         promises b' ! 0 =
           Resolved (JObj [(''iteminfo'',
                            JObj [(''itemid'', JStr ''111''), (''paintseed'', JNum 0),
                                  (''stickers'', JArr [JObj [(''stickerId'', JNum 5)]] []),
                                  (''s'', JStr ''0''), (''a'', JStr ''111''), (''d'', JStr ''1''),
                                  (''m'', JStr ''222''), (''floatvalue'', JNum (123 / 1000))]),
                           (''delay'', JNum 600)])"
    by (simp add: inspectItemInfo_def bot_defs reply0_def obj_get_def normalize_iteminfo_def
        obj_set_def obj_delete_def AList.delete_eq)
  from inspectItemInfo_completion [OF h1 h2, of reply0 ?ss "[]" 1500] h3 h4
  obtain b' delay where
    r: "inspectItemInfo bot_inflight 1500 reply0 = Returned b'"
    and d: "delay = max 0 (request_delay bot_inflight - (1500 - req_time ?rq))"
    and bb: "busy b' = busy bot_inflight"
    and f1: "\<forall>t. t < 1500 + delay \<longrightarrow> fire_timer b' t (length (timers bot_inflight)) = None"
    and f2: "\<forall>t. 1500 + delay \<le> t \<longrightarrow>
                (\<exists>b''. fire_timer b' t (length (timers bot_inflight)) = Some b'' \<and> \<not> busy b'')"
    and tt: "ttlTimeout b' = None"
    and dead: "\<forall>h t. ttlTimeout bot_inflight = Some h \<and> h < length (timers bot_inflight) \<longrightarrow>
                fire_timer b' t h = None"
    and quiet: "(\<forall>k<length (timers bot_inflight).
                   snd (snd (timers bot_inflight ! k)) = Armed \<longrightarrow> ttlTimeout bot_inflight = Some k)
                \<longrightarrow> (\<forall>k t. t < 1500 + delay \<longrightarrow> fire_timer b' t k = None)"
    by blast
  from d bt have d600: "delay = 600" by simp
  have g1: "\<forall>t. t < 2100 \<longrightarrow> fire_timer b' t 1 = None" using f1 d600 bt by simp
  have g2: "\<forall>t. 2100 \<le> t \<longrightarrow> (\<exists>b''. fire_timer b' t 1 = Some b'' \<and> \<not> busy b'')"
    using f2 d600 bt by simp
  have g3: "\<forall>t. fire_timer b' t 0 = None" using dead bt by simp
  have g4: "\<forall>k t. t < 2100 \<longrightarrow> fire_timer b' t k = None" using quiet only d600 by simp
  have g5: "busy b'" using bb bt by simp
  from ev r obtain pr where pr: "promises b' ! 0 = pr"
    "pr = Resolved (JObj [(''iteminfo'',
                            JObj [(''itemid'', JStr ''111''), (''paintseed'', JNum 0),
                                  (''stickers'', JArr [JObj [(''stickerId'', JNum 5)]] []),
                                  (''s'', JStr ''0''), (''a'', JStr ''111''), (''d'', JStr ''1''),
                                  (''m'', JStr ''222''), (''floatvalue'', JNum (123 / 1000))]),
                           (''delay'', JNum 600)])"
    by auto
  from inspectItemInfo_completion [OF h1 h2, of "obj_set ''itemid'' (JStr ''999'') reply0" ?ss "[]" 1500] h4
  have c2: "inspectItemInfo bot_inflight 1500 (obj_set ''itemid'' (JStr ''999'') reply0)
              = Returned bot_inflight"
    by blast
  have c3: "\<exists>b'. inspectItemInfo bot_inflight 1500 reply0 = Returned b' \<and>
         promises b' ! 0 =
           Resolved (JObj [(''iteminfo'',
                            JObj [(''itemid'', JStr ''111''), (''paintseed'', JNum 0),
                                  (''stickers'', JArr [JObj [(''stickerId'', JNum 5)]] []),
                                  (''s'', JStr ''0''), (''a'', JStr ''111''), (''d'', JStr ''1''),
                                  (''m'', JStr ''222''), (''floatvalue'', JNum (123 / 1000))]),
                           (''delay'', JNum 600)]) \<and>
         busy b' \<and>
         (\<forall>t. t < 2100 \<longrightarrow> fire_timer b' t 1 = None) \<and>
         (\<forall>t. 2100 \<le> t \<longrightarrow> (\<exists>b''. fire_timer b' t 1 = Some b'' \<and> \<not> busy b'')) \<and>
         ttlTimeout b' = None \<and>
         (\<forall>t. fire_timer b' t 0 = None) \<and>
         (\<forall>k t. t < 2100 \<longrightarrow> fire_timer b' t k = None)"
    apply (rule exI [of _ b'])
    using r pr g5 g1 g2 tt g3 g4 by simp
  from h1 h2 h3 bt c3 c2 show ?thesis by simp
qed

text \<open>
  Claim C9. \<open>sendFloatRequest\<close> on a session that is not ready: the promise is rejected
  with "This bot is not ready" and nothing is sent to the game coordinator, yet \<open>busy\<close>
  is set and \<open>currentRequest\<close> is recorded, and they stay so after the rejection. The
  TTL timer is armed for \<open>now + request_ttl\<close>; it cannot fire earlier, and when it fires
  it clears \<open>busy\<close> and \<open>currentRequest\<close> (its own \<open>reject\<close> finds the promise settled).
\<close>

theorem sendFloatRequest_not_ready:
  assumes "\<not> ready b" and "sendFloatRequest b now ps pa pd pm = (pid, b')"
  shows "promises b' ! pid = Rejected ''This bot is not ready'' \<and>
         busy b' \<and>
         currentRequest b' =
           Some \<lparr>req_s = ps, req_a = pa, req_d = pd, req_m = pm, req_time = now\<rparr> \<and>
         gcInspects b' = gcInspects b \<and>
         ttlTimeout b' = Some (length (timers b)) \<and>
         timers b' ! length (timers b) = (now + request_ttl b, TtlExceeded pid, Armed) \<and>
         (\<forall>t. t < now + request_ttl b \<longrightarrow> fire_timer b' t (length (timers b)) = None) \<and>
         (\<forall>t. now + request_ttl b \<le> t \<longrightarrow>
            (\<exists>b''. fire_timer b' t (length (timers b)) = Some b'' \<and>
                   \<not> busy b'' \<and> currentRequest b'' = None \<and>
                   promises b'' ! pid = Rejected ''This bot is not ready''))"
  using assms
  by (auto simp: sendFloatRequest_def Let_def ready_def settle_def setTimeout_def fire_timer_def
      run_timer_action_def nth_append split: if_splits)

theorem sendFloatRequest_not_ready_witness:
  "\<not> ready (newBot 1100 2000) \<and>
   (let b' = snd (sendFloatRequest (newBot 1100 2000) 1000 ''0'' ''111'' ''1'' ''222'')
    in promises b' ! 0 = Rejected ''This bot is not ready'' \<and> busy b' \<and>
       currentRequest b' =
         Some \<lparr>req_s = ''0'', req_a = ''111'', req_d = ''1'', req_m = ''222'', req_time = 1000\<rparr> \<and>
       fire_timer b' 2999 0 = None \<and>
       (\<exists>b''. fire_timer b' 3000 0 = Some b'' \<and> \<not> busy b'' \<and> currentRequest b'' = None \<and>
              promises b'' ! 0 = Rejected ''This bot is not ready''))"
proof -
  have h1: "\<not> ready (newBot 1100 2000)" by (simp add: ready_def newBot_def)
  have h2: "sendFloatRequest (newBot 1100 2000) 1000 ''0'' ''111'' ''1'' ''222'' =
              (0, snd (sendFloatRequest (newBot 1100 2000) 1000 ''0'' ''111'' ''1'' ''222''))"
    by (simp add: sendFloatRequest_def Let_def newBot_def setTimeout_def)
  have v: "length (timers (newBot 1100 2000)) = 0" "request_ttl (newBot 1100 2000) = 2000"
    by (simp_all add: newBot_def)
  from sendFloatRequest_not_ready [OF h1 h2] h1 v show ?thesis
    by (simp add: Let_def)
qed

text \<open>
  Claim C7, as amended. The code sent by \<open>logIn\<close>: an explicit one-time code that is
  not empty is the auth code, whatever the secret; else a secret of one to five
  characters is the auth code as it is; else a secret of more than five characters gives
  the two-factor code that \<open>getAuthCode\<close> derives from it (none when that throws); with
  no secret, or an empty one, no code is sent at all.
\<close>

theorem logIn_auth_code:
  "(let b' = logIn getAuthCode b args code;
        ld = last (logOnCalls b')
    in loginData b' = Some ld \<and>
       (truthy_str code \<longrightarrow> authCode ld = code \<and> twoFactorCode ld = None) \<and>
       (\<not> truthy_str code \<longrightarrow>
          (case auth b' of
             None \<Rightarrow> authCode ld = None \<and> twoFactorCode ld = None
           | Some secret \<Rightarrow>
               (secret = [] \<longrightarrow> authCode ld = None \<and> twoFactorCode ld = None) \<and>
               (secret \<noteq> [] \<and> length secret \<le> 5 \<longrightarrow>
                  authCode ld = Some secret \<and> twoFactorCode ld = None) \<and>
               (5 < length secret \<longrightarrow>
                  authCode ld = None \<and> twoFactorCode ld = getAuthCode secret))))"
  by (auto simp: logIn_def Let_def split: option.splits prod.splits)

theorem logIn_auth_code_witness:
  "truthy_str (Some ''K7QXZ'') \<and> \<not> truthy_str None \<and>
   authCode (last (logOnCalls (logIn fixedAuthCode (newBot 1100 2000)
      (Some (''user'', ''pass'', Some ''abcdefgh'')) (Some ''K7QXZ'')))) = Some ''K7QXZ'' \<and>
   authCode (last (logOnCalls (logIn fixedAuthCode (newBot 1100 2000)
      (Some (''user'', ''pass'', Some ''abcde'')) None))) = Some ''abcde'' \<and>
   twoFactorCode (last (logOnCalls (logIn fixedAuthCode (newBot 1100 2000)
      (Some (''user'', ''pass'', Some ''abcdefgh'')) None))) = Some ''R2D2X''"
proof -
  have a: "truthy_str (Some ''K7QXZ'')" "\<not> truthy_str None" by (simp_all add: truthy_str_def)
  have s: "auth (logIn g (newBot 1100 2000) (Some (u, pw, au)) c) = au" for g u pw au c
    by (simp add: logIn_def Let_def split: prod.splits)
  from logIn_auth_code [of fixedAuthCode "newBot 1100 2000"
      "Some (''user'', ''pass'', Some ''abcdefgh'')" "Some ''K7QXZ''"] a
  have 1: "authCode (last (logOnCalls (logIn fixedAuthCode (newBot 1100 2000)
      (Some (''user'', ''pass'', Some ''abcdefgh'')) (Some ''K7QXZ'')))) = Some ''K7QXZ''"
    by (simp add: Let_def)
  from logIn_auth_code [of fixedAuthCode "newBot 1100 2000"
      "Some (''user'', ''pass'', Some ''abcde'')" None] a
  have 2: "authCode (last (logOnCalls (logIn fixedAuthCode (newBot 1100 2000)
      (Some (''user'', ''pass'', Some ''abcde'')) None))) = Some ''abcde''"
    by (simp add: Let_def s fixedAuthCode_def)
  from logIn_auth_code [of fixedAuthCode "newBot 1100 2000"
      "Some (''user'', ''pass'', Some ''abcdefgh'')" None] a
  have 3: "twoFactorCode (last (logOnCalls (logIn fixedAuthCode (newBot 1100 2000)
      (Some (''user'', ''pass'', Some ''abcdefgh'')) None))) = Some ''R2D2X''"
    by (simp add: Let_def s fixedAuthCode_def)
  from a 1 2 3 show ?thesis by simp
qed

text \<open>
  Claim C7 as stated takes every login without an explicit code and without a short
  secret to derive a one-time code from the secret. With the empty secret \<open>logIn\<close>
  derives none, even where \<open>getAuthCode\<close> would return one.
\<close>

theorem logIn_empty_secret_counterexample:
  "\<not> truthy_str None \<and>
   \<not> ('''' \<noteq> [] \<and> length '''' \<le> (5::nat)) \<and>
   twoFactorCode (last (logOnCalls (logIn fixedAuthCode (newBot 1100 2000)
      (Some (''user'', ''pass'', Some '''')) None))) = None \<and>
   authCode (last (logOnCalls (logIn fixedAuthCode (newBot 1100 2000)
      (Some (''user'', ''pass'', Some '''')) None))) = None"
  by (simp add: logIn_def Let_def newBot_def truthy_str_def fixedAuthCode_def)

section \<open>Properties of the queue and of admission\<close>

text \<open>
  Claim C3. The \<open>catch\<close> callback of \<open>checkQueue\<close>: the attempts of the entry stay as they
  are for \<open>NoBotsAvailable\<close> and grow by one for any other error. If they then equal
  \<open>max_attempts\<close>, "job failed" is emitted with the entry and the error, the counter of
  the client is decremented and the queue is left alone; otherwise the entry is put back
  at the head of the queue, before every waiting entry.
\<close>

theorem checkQueue_rejected_spec:
  "(let n = (if err = NoBotsAvailable then attempts job else attempts job + 1);
        job' = job\<lparr>attempts := n\<rparr>;
        q' = checkQueue_rejected job err q
    in (n = max_attempts job \<longrightarrow>
          jobFailed q' = jobFailed q @ [(job', err)] \<and>
          users q' = decrement_user (users q) (ip job) \<and>
          (\<forall>c. users q (ip job) = Some (Count c) \<longrightarrow> users q' (ip job) = Some (Count (c - 1))) \<and>
          queue q' = queue q) \<and>
       (n \<noteq> max_attempts job \<longrightarrow>
          queue q' = job' # queue q \<and> jobFailed q' = jobFailed q \<and> users q' = users q))"
  by (simp add: checkQueue_rejected_def Let_def decrement_user_def)

theorem checkQueue_rejected_spec_witness:
  "attempts entryX + 1 \<noteq> max_attempts entryX \<and>
   queue (checkQueue_rejected entryX (OtherError ''ttl exceeded'') queueY)
     = [entryX\<lparr>attempts := 1\<rparr>, entryY] \<and>
   queue (checkQueue_rejected entryX NoBotsAvailable queueY) = [entryX, entryY] \<and>
   attempts (entryX\<lparr>attempts := 2\<rparr>) + 1 = max_attempts (entryX\<lparr>attempts := 2\<rparr>) \<and>
   users queueY ''1.2.3.4'' = Some (Count 2) \<and>
   jobFailed (checkQueue_rejected (entryX\<lparr>attempts := 2\<rparr>) (OtherError ''ttl exceeded'') queueY)
     = [(entryX\<lparr>attempts := 3\<rparr>, OtherError ''ttl exceeded'')] \<and>
   users (checkQueue_rejected (entryX\<lparr>attempts := 2\<rparr>) (OtherError ''ttl exceeded'') queueY)
      ''1.2.3.4'' = Some (Count 1) \<and>
   queue (checkQueue_rejected (entryX\<lparr>attempts := 2\<rparr>) (OtherError ''ttl exceeded'') queueY)
     = [entryY]"
  using checkQueue_rejected_spec [of "OtherError ''ttl exceeded''" entryX queueY]
    checkQueue_rejected_spec [of NoBotsAvailable entryX queueY]
    checkQueue_rejected_spec [of "OtherError ''ttl exceeded''" "entryX\<lparr>attempts := 2\<rparr>" queueY]
  by (simp add: Let_def entryX_def queueY_def emptyQueue_def decrement_user_def)

text \<open>
  Claim C2, as amended. For a positive limit \<open>max_queue_size\<close>, a submission that is
  accepted stays accepted, with the same outcome, under every larger limit.
\<close>

theorem admission_monotone:
  "0 < m \<Longrightarrow> m \<le> m' \<Longrightarrow>
   accepted (handleJob (cfg\<lparr>max_queue_size := m\<rparr>) online q client remaining) \<Longrightarrow>
   accepted (handleJob (cfg\<lparr>max_queue_size := m'\<rparr>) online q client remaining) \<and>
   handleJob (cfg\<lparr>max_queue_size := m'\<rparr>) online q client remaining
      = handleJob (cfg\<lparr>max_queue_size := m\<rparr>) online q client remaining"
  by (auto simp: handleJob_def accepted_def split: if_splits)

theorem admission_monotone_witness:
  "(0::int) < 5 \<and> (5::int) \<le> 10 \<and>
   accepted (handleJob \<lparr>max_simultaneous_requests = 3, max_queue_size = 5\<rparr> True queueY ''1.2.3.4'' 1) \<and>
   accepted (handleJob \<lparr>max_simultaneous_requests = 3, max_queue_size = 10\<rparr> True queueY ''1.2.3.4'' 1)"
proof -
  have h: "accepted (handleJob (\<lparr>max_simultaneous_requests = 3, max_queue_size = 0\<rparr>\<lparr>max_queue_size := 5\<rparr>)
             True queueY ''1.2.3.4'' 1)"
    by (simp add: handleJob_def accepted_def queueY_def emptyQueue_def getUserQueuedAmt_def
        size_queue_def)
  from admission_monotone [of 5 10, OF _ _ h] h show ?thesis by simp
qed

text \<open>
  Claim C2 as stated covers every configured limit. The limit 0 switches the check
  off, so raising it from 0 to 1 rejects a submission that was accepted: one link of a
  client while one entry is queued.
\<close>

theorem admission_unlimited_counterexample:
  "(0::int) \<le> 1 \<and>
   accepted (handleJob \<lparr>max_simultaneous_requests = 3, max_queue_size = 0\<rparr> True queueY ''1.2.3.4'' 1) \<and>
   \<not> accepted (handleJob \<lparr>max_simultaneous_requests = 3, max_queue_size = 1\<rparr> True queueY ''1.2.3.4'' 1)"
  by (simp add: handleJob_def accepted_def queueY_def emptyQueue_def getUserQueuedAmt_def
        size_queue_def)

section \<open>Properties of the proxy pool and of the supervisor\<close>

text \<open>
  Claim C10. \<open>releaseBot\<close> for a session that is not a key of \<open>botToGroupMap\<close> returns
  the pool as it was, whatever the success flag: no counter of any group changes.
\<close>

theorem releaseBot_unmapped: "botToGroupMap p b = None \<Longrightarrow> releaseBot b success p = p"
  by (simp add: releaseBot_def)

theorem releaseBot_unmapped_witness:
  "botToGroupMap pool1 7 = None \<and> releaseBot 7 True pool1 = pool1 \<and> releaseBot 7 False pool1 = pool1"
proof -
  have h: "botToGroupMap pool1 7 = None"
    by (simp add: pool1_def pool0_def newProxyPoolManager_def handleLoginSuccess_def distributeBots_def
       loadProxies_def Let_def addBot_def)
  from releaseBot_unmapped [OF h, of True] releaseBot_unmapped [OF h, of False] h
  show ?thesis by simp
qed

lemmas pool_defs = pool1_def pool0_def newProxyPoolManager_def handleLoginSuccess_def distributeBots_def
       loadProxies_def Let_def addBot_def newProxyGroup_def recordLoginSuccess_def defaultRetryConfig_def

lemma pool1_groups: "proxyGroups pool1 = 
  [\<lparr>group_id = 0, proxyUrl = Some ''http://p0'', bots = [0],
     activeRequests = 0, totalRequests = 0, lastRequestTime = 0,
     failures = 0, loginFailures = 0, successfulLogins = 1\<rparr>,
  \<lparr>group_id = 1, proxyUrl = Some ''socks5://p1'', bots = [],
     activeRequests = 0, totalRequests = 0, lastRequestTime = 0,
     failures = 0, loginFailures = 0, successfulLogins = 0\<rparr>]"
  by (simp add: pool_defs)

lemma pool1_fields: "botToGroupMap pool1 0 = Some 0" "retryConfig pool1 = defaultRetryConfig"
  "botRetryCount pool1 0 = None" "failedProxies pool1 = {}" "maxRequestsPerProxy pool1 = 3"
  by (simp_all add: pool_defs)

lemma reassignBot_keeps:
  "reassignBot b ex p = (p', r) \<Longrightarrow>
     botRetryCount p' = botRetryCount p \<and> retryConfig p' = retryConfig p"
  by (auto simp: reassignBot_def Let_def addBot_def removeBot_def split: option.splits if_splits)

lemma handleLoginFailure_Retry:
  assumes "handleLoginFailure b reason p = (p', Retry np rd rc)"
  shows "rc = getRetryCount p b + 1 \<and> getRetryCount p' b = rc \<and>
         rd = (if reason = ''steamguard'' then 10000 else retryDelay (retryConfig p)) \<and>
         retryConfig p' = retryConfig p"
  using assms
  apply (simp add: handleLoginFailure_def chargeLoginFailure_def Let_def
      split: if_splits prod.splits option.splits)
  apply (auto simp: getRetryCount_def dest!: reassignBot_keeps split: option.splits if_splits)
  done

lemma ratelimit_cap: "3 \<le> n \<Longrightarrow> min (30000 * math_pow2 (n - 1)) 120000 = 120000"
proof -
  assume n: "3 \<le> n"
  then have "(2::rat) ^ 2 \<le> 2 ^ nat (n - 1)"
    by (intro power_increasing) auto
  then have "(4::rat) \<le> math_pow2 (n - 1)" using n by (simp add: math_pow2_def)
  then show ?thesis by simp
qed

text \<open>
  Claim C8. Whenever the controller schedules a retry after a login failure, the delay
  is 15000 ms for \<open>steamguard\<close>, 10000 ms for \<open>proxy\<close>,
  \<open>min (30000 * 2 ^ (n - 1)) 120000\<close> ms for \<open>ratelimit\<close>, where \<open>n\<close> is the retry count
  of the session after the failure (30000, 60000, 120000 for the retries 1, 2, 3, and
  120000 from then on), and the configured \<open>retryDelay\<close> of the pool for any other
  reason.
\<close>

theorem login_retry_delay:
  assumes "handleBotLoginFailure (Some p) b reason = (Some p', ScheduleRetry delay newProxy)"
  shows "(reason = ''steamguard'' \<longrightarrow> delay = 15000) \<and>
         (reason = ''proxy'' \<longrightarrow> delay = 10000) \<and>
         (reason = ''ratelimit'' \<longrightarrow>
            delay = min (30000 * math_pow2 (getRetryCount p' b - 1)) 120000 \<and>
            (getRetryCount p' b = 1 \<longrightarrow> delay = 30000) \<and>
            (getRetryCount p' b = 2 \<longrightarrow> delay = 60000) \<and>
            (getRetryCount p' b = 3 \<longrightarrow> delay = 120000) \<and>
            (3 \<le> getRetryCount p' b \<longrightarrow> delay = 120000)) \<and>
         (reason \<noteq> ''steamguard'' \<and> reason \<noteq> ''proxy'' \<and> reason \<noteq> ''ratelimit'' \<longrightarrow>
            delay = of_int (retryDelay (retryConfig p))) \<and>
         getRetryCount p' b = getRetryCount p b + 1"
proof (cases "reason = ''steamguard''")
  case True
  then show ?thesis using assms
    by (auto simp: handleBotLoginFailure_def split: prod.splits retry_info.splits option.splits
        dest: handleLoginFailure_Retry)
next
  case False
  from assms False obtain rd rc where
    h: "handleLoginFailure b reason p = (p', Retry newProxy rd rc)"
    and d: "delay = (if reason = ''ratelimit''
                               then min (30000 * math_pow2 (rc - 1)) 120000
                               else if reason = ''proxy'' then 10000
                               else of_int rd)"
    by (auto simp: handleBotLoginFailure_def Let_def split: prod.splits retry_info.splits)
  from handleLoginFailure_Retry[OF h] False
  have rc: "rc = getRetryCount p b + 1" "getRetryCount p' b = rc" "rd = retryDelay (retryConfig p)"
    by auto
  show ?thesis
  proof (cases "reason = ''ratelimit''")
    case True
    then have dd: "delay = min (30000 * math_pow2 (rc - 1)) 120000" using d by simp
    have "rc = 1 \<longrightarrow> delay = 30000" "rc = 2 \<longrightarrow> delay = 60000" "rc = 3 \<longrightarrow> delay = 120000"
      using dd by (auto simp: math_pow2_def)
    moreover have "3 \<le> rc \<longrightarrow> delay = 120000" using dd ratelimit_cap by simp
    ultimately show ?thesis using True rc dd by simp
  next
    case False
    then show ?thesis using d rc \<open>reason \<noteq> ''steamguard''\<close> by auto
  qed
qed

lemmas hlf_defs = handleLoginFailure_def chargeLoginFailure_def pool1_groups pool1_fields Let_def recordLoginFailure_def
     getSuccessRate_def defaultRetryConfig_def getRetryCount_def reassignBot_def removeBot_def
     availableGroups_def addBot_def group_cmp_def

lemma hlf_pool1:
  "reason \<noteq> ''steamguard'' \<Longrightarrow> handleLoginFailure 0 reason pool1 = (pool1_retried reason, Retry (Some group1_binding) 5000 1)"
  "handleLoginFailure 0 ''steamguard'' pool1 = (pool1_retried ''steamguard'', Retry (Some group1_binding) 10000 1)"
  unfolding pool1_retried_def group1_binding_def
  by (simp_all add: hlf_defs)

theorem login_retry_delay_witness:
  "handleBotLoginFailure (Some pool1) 0 ''steamguard''
     = (Some (pool1_retried ''steamguard''), ScheduleRetry 15000 (Some group1_binding)) \<and>
   handleBotLoginFailure (Some pool1) 0 ''proxy''
     = (Some (pool1_retried ''proxy''), ScheduleRetry 10000 (Some group1_binding)) \<and>
   handleBotLoginFailure (Some pool1) 0 ''ratelimit''
     = (Some (pool1_retried ''ratelimit''), ScheduleRetry 30000 (Some group1_binding)) \<and>
   handleBotLoginFailure (Some pool1) 0 ''unknown''
     = (Some (pool1_retried ''unknown''), ScheduleRetry 5000 (Some group1_binding)) \<and>
   getRetryCount (pool1_retried ''ratelimit'') 0 = 1"
proof -
  have a: "handleBotLoginFailure (Some pool1) 0 ''steamguard''
     = (Some (pool1_retried ''steamguard''), ScheduleRetry 15000 (Some group1_binding))"
    by (simp add: handleBotLoginFailure_def hlf_pool1)
  have b: "handleBotLoginFailure (Some pool1) 0 ''proxy''
     = (Some (pool1_retried ''proxy''), ScheduleRetry 10000 (Some group1_binding))"
    by (simp add: handleBotLoginFailure_def hlf_pool1)
  have c: "handleBotLoginFailure (Some pool1) 0 ''ratelimit''
     = (Some (pool1_retried ''ratelimit''), ScheduleRetry 30000 (Some group1_binding))"
    by (simp add: handleBotLoginFailure_def hlf_pool1 math_pow2_def)
  have d: "handleBotLoginFailure (Some pool1) 0 ''unknown''
     = (Some (pool1_retried ''unknown''), ScheduleRetry 5000 (Some group1_binding))"
    by (simp add: handleBotLoginFailure_def hlf_pool1)
  from login_retry_delay [OF c] have "getRetryCount (pool1_retried ''ratelimit'') 0 = getRetryCount pool1 0 + 1"
    by simp
  then have e: "getRetryCount (pool1_retried ''ratelimit'') 0 = 1"
    by (simp add: getRetryCount_def pool1_fields)
  from a b c d e login_retry_delay [OF a] login_retry_delay [OF b] login_retry_delay [OF d]
  show ?thesis by simp
qed

lemma pool_sg_groups: "proxyGroups pool_sg = 
  [\<lparr>group_id = 0, proxyUrl = Some ''http://p0'', bots = [0],
     activeRequests = 0, totalRequests = 0, lastRequestTime = 0,
     failures = 0, loginFailures = 5, successfulLogins = 2\<rparr>,
  \<lparr>group_id = 1, proxyUrl = Some ''socks5://p1'', bots = [],
     activeRequests = 0, totalRequests = 0, lastRequestTime = 0,
     failures = 0, loginFailures = 0, successfulLogins = 0\<rparr>]"
  by (simp add: pool_sg_def pool1_groups)

lemma pool_sg_fields: "botToGroupMap pool_sg 0 = Some 0" "retryConfig pool_sg = defaultRetryConfig"
  "botRetryCount pool_sg 0 = None" "failedProxies pool_sg = {}" "maxRequestsPerProxy pool_sg = 3"
  by (simp_all add: pool_sg_def pool1_fields)

text \<open>
  What a failed login does to the counters of the group the session is bound to, for any
  reason: \<open>loginFailures\<close> grows by one and \<open>successfulLogins\<close> stays. For the reason
  \<open>steamguard\<close> too, so the success rate of a group with a successful login falls.
\<close>

lemma length_addBot: "length (proxyGroups (addBot gi b p)) = length (proxyGroups p)"
  by (simp add: addBot_def Let_def)

lemma length_removeBot: "length (proxyGroups (removeBot gi b p)) = length (proxyGroups p)"
  by (simp add: removeBot_def Let_def)

lemma counters_addBot:
  "i < length (proxyGroups p) \<Longrightarrow>
   loginFailures (proxyGroups (addBot gi b p) ! i) = loginFailures (proxyGroups p ! i) \<and>
   successfulLogins (proxyGroups (addBot gi b p) ! i) = successfulLogins (proxyGroups p ! i)"
  by (cases "i = gi") (simp_all add: addBot_def Let_def)

lemma counters_removeBot:
  "i < length (proxyGroups p) \<Longrightarrow>
   loginFailures (proxyGroups (removeBot gi b p) ! i) = loginFailures (proxyGroups p ! i) \<and>
   successfulLogins (proxyGroups (removeBot gi b p) ! i) = successfulLogins (proxyGroups p ! i)"
  by (cases "i = gi") (simp_all add: removeBot_def Let_def)

lemma counters_reassignBot:
  assumes "i < length (proxyGroups p)"
  shows "loginFailures (proxyGroups (fst (reassignBot b ex p)) ! i) = loginFailures (proxyGroups p ! i) \<and>
         successfulLogins (proxyGroups (fst (reassignBot b ex p)) ! i) = successfulLogins (proxyGroups p ! i)"
proof -
  define p1 where "p1 = (case botToGroupMap p b of Some gi \<Rightarrow> removeBot gi b p | None \<Rightarrow> p)"
  have l1: "length (proxyGroups p1) = length (proxyGroups p)"
    by (simp add: p1_def length_removeBot split: option.splits)
  have c1: "loginFailures (proxyGroups p1 ! i) = loginFailures (proxyGroups p ! i) \<and>
            successfulLogins (proxyGroups p1 ! i) = successfulLogins (proxyGroups p ! i)"
    using assms by (simp add: p1_def counters_removeBot split: option.splits)
  have c2: "loginFailures (proxyGroups (addBot g b p1) ! i) = loginFailures (proxyGroups p ! i) \<and>
            successfulLogins (proxyGroups (addBot g b p1) ! i) = successfulLogins (proxyGroups p ! i)" for g
    using assms l1 c1 by (simp add: counters_addBot)
  show ?thesis
    using c1 c2 by (simp add: reassignBot_def p1_def [symmetric] Let_def)
qed

lemma charged_counters:
  assumes "botToGroupMap p b = Some gi" and "gi < length (proxyGroups p)"
  shows "length (proxyGroups (chargeLoginFailure (Some gi) p)) = length (proxyGroups p) \<and>
         loginFailures (proxyGroups (chargeLoginFailure (Some gi) p) ! gi)
           = loginFailures (proxyGroups p ! gi) + 1 \<and>
         successfulLogins (proxyGroups (chargeLoginFailure (Some gi) p) ! gi)
           = successfulLogins (proxyGroups p ! gi)"
  using assms by (simp add: chargeLoginFailure_def Let_def recordLoginFailure_def)

lemma login_failure_recorded:
  assumes m: "botToGroupMap p b = Some gi" and gi: "gi < length (proxyGroups p)"
  shows "loginFailures (proxyGroups (fst (handleLoginFailure b reason p)) ! gi)
           = loginFailures (proxyGroups p ! gi) + 1 \<and>
         successfulLogins (proxyGroups (fst (handleLoginFailure b reason p)) ! gi)
           = successfulLogins (proxyGroups p ! gi)"
proof -
  define p1 where "p1 = chargeLoginFailure (Some gi) p"
  from charged_counters [OF m gi]
  have l1: "length (proxyGroups p1) = length (proxyGroups p)"
    and c1: "loginFailures (proxyGroups p1 ! gi) = loginFailures (proxyGroups p ! gi) + 1"
            "successfulLogins (proxyGroups p1 ! gi) = successfulLogins (proxyGroups p ! gi)"
    by (simp_all add: p1_def)
  have c3: "loginFailures (proxyGroups p3 ! gi) = loginFailures (proxyGroups p ! gi) + 1 \<and>
            successfulLogins (proxyGroups p3 ! gi) = successfulLogins (proxyGroups p ! gi)"
    if "reassignBot b ex (p1\<lparr>botRetryCount := c\<rparr>) = (p3, r)" for ex c p3 r
  proof -
    have "gi < length (proxyGroups (p1\<lparr>botRetryCount := c\<rparr>))" using gi l1 by simp
    from counters_reassignBot [OF this, of b ex] that c1 show ?thesis by simp
  qed
  show ?thesis
    unfolding handleLoginFailure_def m p1_def [symmetric] Let_def
    using c1 c3
    by (auto split: prod.splits option.splits)
qed

lemma steamguard_failure_lowers_rate:
  assumes m: "botToGroupMap p b = Some gi" and gi: "gi < length (proxyGroups p)"
    and s: "0 < successfulLogins (proxyGroups p ! gi)" and f: "0 \<le> loginFailures (proxyGroups p ! gi)"
  shows "getSuccessRate (proxyGroups (fst (handleLoginFailure b ''steamguard'' p)) ! gi)
           < getSuccessRate (proxyGroups p ! gi)"
proof -
  let ?s = "successfulLogins (proxyGroups p ! gi)" and ?f = "loginFailures (proxyGroups p ! gi)"
  from login_failure_recorded [OF m gi, of "''steamguard''"]
  have r: "getSuccessRate (proxyGroups (fst (handleLoginFailure b ''steamguard'' p)) ! gi)
             = of_int ?s / of_int (?s + (?f + 1))"
    using s f by (simp add: getSuccessRate_def Let_def)
  have "(of_int ?s :: rat) / of_int (?s + (?f + 1)) < of_int ?s / of_int (?s + ?f)"
    using s f by (simp add: divide_strict_left_mono)
  with r s f show ?thesis by (simp add: getSuccessRate_def Let_def)
qed

text \<open>
  Claim C1. The claim holds that a \<open>steamguard\<close> failure is not charged against the
  health of the proxy: the success rate of the group stays as it was. The code records
  the failure against the group before it looks at the reason, whatever the pool (the
  lemmas above). Evaluated on two pools:
  a group with one successful login falls from the success rate 1 to 1/2; a group with
  two successful and five failed logins falls from 2/7 to 1/4 and is marked failed.
\<close>

theorem steamguard_failure_charged:
  "botToGroupMap pool1 0 = Some 0 \<and>
   loginFailures (proxyGroups pool1 ! 0) = 0 \<and>
   getSuccessRate (proxyGroups pool1 ! 0) = 1 \<and>
   loginFailures (proxyGroups (fst (handleLoginFailure 0 ''steamguard'' pool1)) ! 0) = 1 \<and>
   getSuccessRate (proxyGroups (fst (handleLoginFailure 0 ''steamguard'' pool1)) ! 0) = 1 / 2 \<and>
   botToGroupMap pool_sg 0 = Some 0 \<and>
   getSuccessRate (proxyGroups pool_sg ! 0) = 2 / 7 \<and>
   0 \<notin> failedProxies pool_sg \<and>
   loginFailures (proxyGroups (fst (handleLoginFailure 0 ''steamguard'' pool_sg)) ! 0) = 6 \<and>
   getSuccessRate (proxyGroups (fst (handleLoginFailure 0 ''steamguard'' pool_sg)) ! 0) = 1 / 4 \<and>
   0 \<in> failedProxies (fst (handleLoginFailure 0 ''steamguard'' pool_sg))"
  by (simp add: handleLoginFailure_def chargeLoginFailure_def pool1_groups pool1_fields
     pool_sg_groups pool_sg_fields
     Let_def recordLoginFailure_def
     getSuccessRate_def defaultRetryConfig_def getRetryCount_def reassignBot_def removeBot_def
     availableGroups_def addBot_def group_cmp_def)

lemma map_update_same: "(\<And>x. f (g x) = f x) \<Longrightarrow> map f (xs[i := g (xs ! i)]) = map f xs"
proof -
  assume a: "\<And>x. f (g x) = f x"
  have "map f (xs[i := g (xs ! i)]) = (map f xs)[i := f (xs ! i)]"
    by (simp add: map_update a)
  also have "\<dots> = map f (xs[i := xs ! i])"
    by (simp only: map_update)
  finally show ?thesis by simp
qed

lemma bots_addBot:
  "map bots (proxyGroups (addBot gi b p)) =
     (map bots (proxyGroups p))[gi := bots (proxyGroups p ! gi) @ [b]]"
  by (simp add: addBot_def Let_def map_update)

lemma map_addBot: "botToGroupMap (addBot gi b p) = botToGroupMap p"
  by (simp add: addBot_def Let_def)

lemma bots_removeBot:
  "map bots (proxyGroups (removeBot gi b p)) =
     (map bots (proxyGroups p))[gi := remove1 b (bots (proxyGroups p ! gi))]"
  by (simp add: removeBot_def Let_def map_update)

lemma map_removeBot: "botToGroupMap (removeBot gi b p) = botToGroupMap p"
  by (simp add: removeBot_def Let_def)

lemma bots_inv_add:
  assumes inv: "bots_inv bss m" and gi: "gi < length bss"
    and fresh: "\<forall>i<length bss. b \<notin> set (bss ! i)"
  shows "bots_inv (bss[gi := bss ! gi @ [b]]) (m(b \<mapsto> gi))"
proof -
  let ?bss = "bss[gi := bss ! gi @ [b]]"
  have d: "\<And>i. i < length bss \<Longrightarrow> distinct (bss ! i)"
    and o: "\<And>i x. i < length bss \<Longrightarrow> x \<in> set (bss ! i) \<Longrightarrow> m x = Some i"
    and r: "\<And>x i. m x = Some i \<Longrightarrow> i < length bss"
    using inv unfolding bots_inv_def by blast+
  have 1: "distinct (?bss ! i)" if "i < length ?bss" for i
    using that d fresh gi by (cases "i = gi") (simp_all add: nth_list_update)
  have 2: "(m(b \<mapsto> gi)) x = Some i" if "i < length ?bss" "x \<in> set (?bss ! i)" for i x
  proof (cases "x = b")
    case True
    with that fresh have "i = gi" by (cases "i = gi") (auto simp: nth_list_update)
    with True show ?thesis by simp
  next
    case False
    with that have "x \<in> set (bss ! i)" by (cases "i = gi") (auto simp: nth_list_update)
    with that False o show ?thesis by simp
  qed
  have 3: "i < length ?bss" if "(m(b \<mapsto> gi)) x = Some i" for x i
    using that gi r by (cases "x = b") auto
  show ?thesis unfolding bots_inv_def using 1 2 3 by blast
qed

lemma bots_inv_remove:
  assumes inv: "bots_inv bss m"
  shows "bots_inv (bss[gi := remove1 b (bss ! gi)]) m"
proof -
  let ?bss = "bss[gi := remove1 b (bss ! gi)]"
  have d: "\<And>i. i < length bss \<Longrightarrow> distinct (bss ! i)"
    and o: "\<And>i x. i < length bss \<Longrightarrow> x \<in> set (bss ! i) \<Longrightarrow> m x = Some i"
    and r: "\<And>x i. m x = Some i \<Longrightarrow> i < length bss"
    using inv unfolding bots_inv_def by blast+
  have 1: "distinct (?bss ! i)" if "i < length ?bss" for i
    using that d by (cases "i = gi") (simp_all add: nth_list_update)
  have 2: "m x = Some i" if "i < length ?bss" "x \<in> set (?bss ! i)" for i x
  proof -
    from that have "x \<in> set (bss ! i)"
      by (cases "i = gi") (auto simp: nth_list_update dest: set_remove1_subset[THEN subsetD])
    with that o show ?thesis by simp
  qed
  have 3: "i < length ?bss" if "m x = Some i" for x i
    using that r by simp
  show ?thesis unfolding bots_inv_def using 1 2 3 by blast
qed

lemma bots_inv_removed:
  assumes inv: "bots_inv bss m" and mb: "m b = Some gi" and i: "i < length bss"
  shows "b \<notin> set ((bss[gi := remove1 b (bss ! gi)]) ! i)"
proof (cases "i = gi")
  case True
  from inv i have "distinct (bss ! i)" unfolding bots_inv_def by blast
  with True i show ?thesis by (simp add: nth_list_update)
next
  case False
  have "b \<notin> set (bss ! i)"
  proof
    assume "b \<in> set (bss ! i)"
    with inv i have "m b = Some i" unfolding bots_inv_def by blast
    with mb False show False by simp
  qed
  with False show ?thesis by (simp add: nth_list_update)
qed

lemma bots_inv_unmapped:
  assumes inv: "bots_inv bss m" and mb: "m b = None" and i: "i < length bss"
  shows "b \<notin> set (bss ! i)"
proof
  assume "b \<in> set (bss ! i)"
  with inv i have "m b = Some i" unfolding bots_inv_def by blast
  with mb show False by simp
qed

lemma pool_inv_add:
  assumes "pool_inv p" and "gi < length (proxyGroups p)"
    and "\<forall>i<length (proxyGroups p). b \<notin> set (bots (proxyGroups p ! i))"
  shows "pool_inv ((addBot gi b p)\<lparr>botToGroupMap := (botToGroupMap (addBot gi b p))(b \<mapsto> gi)\<rparr>)"
proof -
  from assms have "bots_inv ((map bots (proxyGroups p))[gi := map bots (proxyGroups p) ! gi @ [b]])
                     ((botToGroupMap p)(b \<mapsto> gi))"
    unfolding pool_inv_def by (intro bots_inv_add) simp_all
  with assms(2) show ?thesis
    by (simp add: pool_inv_def bots_addBot map_addBot)
qed

lemma bots_nth_addBot:
  "i < length (proxyGroups p) \<Longrightarrow>
   bots (proxyGroups (addBot gi b p) ! i) =
     (if i = gi then bots (proxyGroups p ! gi) @ [b] else bots (proxyGroups p ! i))"
  by (simp add: addBot_def Let_def nth_list_update)

lemma distribute_loop_inv:
  "pool_inv p \<Longrightarrow> distinct bs \<Longrightarrow> px < length (proxyGroups p) \<Longrightarrow>
   \<forall>i<length (proxyGroups p). set (bots (proxyGroups p ! i)) \<inter> set bs = {} \<Longrightarrow>
   pool_inv (distribute_loop n k px bs p)"
proof (induction bs arbitrary: k px p)
  case Nil
  then show ?case by simp
next
  case (Cons b bs)
  let ?p2 = "(addBot px b p)\<lparr>botToGroupMap := (botToGroupMap (addBot px b p))(b \<mapsto> px)\<rparr>"
  let ?px = "if (k + 1) mod n = 0 \<and> px < length (proxyGroups ?p2) - 1 then px + 1 else px"
  have fresh: "\<forall>i<length (proxyGroups p). b \<notin> set (bots (proxyGroups p ! i))"
    using Cons.prems(4) by auto
  have inv2: "pool_inv ?p2"
    using Cons.prems(1,3) fresh by (rule pool_inv_add)
  have len: "length (proxyGroups ?p2) = length (proxyGroups p)"
    by (simp add: length_addBot)
  have px: "?px < length (proxyGroups ?p2)"
    using Cons.prems(3) len by auto
  have disj: "\<forall>i<length (proxyGroups ?p2). set (bots (proxyGroups ?p2 ! i)) \<inter> set bs = {}"
  proof (intro allI impI)
    fix i assume i: "i < length (proxyGroups ?p2)"
    then have i': "i < length (proxyGroups p)" using len by simp
    have "set (bots (proxyGroups p ! i)) \<inter> set bs = {}"
      using Cons.prems(4) i' by auto
    moreover have "b \<notin> set bs" using Cons.prems(2) by simp
    ultimately show "set (bots (proxyGroups ?p2 ! i)) \<inter> set bs = {}"
      using i' by (auto simp: bots_nth_addBot)
  qed
  have "pool_inv (distribute_loop n (k + 1) ?px bs ?p2)"
    using inv2 _ px disj
  proof (rule Cons.IH)
    show "distinct bs" using Cons.prems(2) by simp
  qed
  then show ?case by (simp add: Let_def)
qed

lemma distributeBots_inv:
  assumes inv: "pool_inv p" and d: "distinct bs"
  shows "pool_inv (distributeBots bs p)"
proof (cases "length (proxyGroups p) = 0")
  case True
  with inv show ?thesis by (simp add: distributeBots_def)
next
  case False
  let ?p1 = "p\<lparr>proxyGroups := map (\<lambda>g. g\<lparr>bots := []\<rparr>) (proxyGroups p),
                   botToGroupMap := Map.empty\<rparr>"
  have "pool_inv ?p1" by (simp add: pool_inv_def bots_inv_def)
  moreover have "0 < length (proxyGroups ?p1)" using False by simp
  moreover have "\<forall>i<length (proxyGroups ?p1). set (bots (proxyGroups ?p1 ! i)) \<inter> set bs = {}"
    by simp
  ultimately have "pool_inv (distribute_loop n 0 0 bs ?p1)" for n
    using d distribute_loop_inv by blast
  with False show ?thesis by (simp add: distributeBots_def Let_def)
qed

lemma insert_cmp_set: "set (insert_cmp c x xs) = insert x (set xs)"
  by (induction xs) auto

lemma sort_cmp_set: "set (sort_cmp c xs) = set xs"
  by (induction xs) (auto simp: insert_cmp_set)

lemma hd_sort_cmp: "xs \<noteq> [] \<Longrightarrow> hd (sort_cmp c xs) \<in> set xs"
proof -
  assume "xs \<noteq> []"
  then have "sort_cmp c xs \<noteq> []" using sort_cmp_set [of c xs] by auto
  then have "hd (sort_cmp c xs) \<in> set (sort_cmp c xs)" by simp
  then show ?thesis by (simp add: sort_cmp_set)
qed

lemma availableGroups_bound: "i \<in> set (availableGroups ex p) \<Longrightarrow> i < length (proxyGroups p)"
  by (simp add: availableGroups_def)

lemma mapped_bound:
  assumes inv: "pool_inv p" and Some: "botToGroupMap p b = Some gi"
  shows "gi < length (proxyGroups p)"
proof -
  from inv have "\<forall>b i. botToGroupMap p b = Some i \<longrightarrow> i < length (map bots (proxyGroups p))"
    unfolding pool_inv_def bots_inv_def by (elim conjE)
  with Some show ?thesis by auto
qed

lemma unbind_None:
  assumes inv: "pool_inv p" and None: "botToGroupMap p b = None" and i: "i < length (proxyGroups p)"
  shows "b \<notin> set (bots (proxyGroups p ! i))"
proof -
  from inv have a: "bots_inv (map bots (proxyGroups p)) (botToGroupMap p)"
    by (simp only: pool_inv_def)
  from i have b: "i < length (map bots (proxyGroups p))" by simp
  from bots_inv_unmapped [OF a None b] i show ?thesis by simp
qed

lemma unbind_Some:
  assumes inv: "pool_inv p" and Some: "botToGroupMap p b = Some gi"
  shows "pool_inv (removeBot gi b p)"
    and "\<forall>i<length (proxyGroups (removeBot gi b p)).
            b \<notin> set (bots (proxyGroups (removeBot gi b p) ! i))"
proof -
  from inv have a: "bots_inv (map bots (proxyGroups p)) (botToGroupMap p)"
    by (simp only: pool_inv_def)
  have gi: "gi < length (proxyGroups p)" using inv Some by (rule mapped_bound)
  have eq: "map bots (proxyGroups (removeBot gi b p)) =
              (map bots (proxyGroups p))[gi := remove1 b (map bots (proxyGroups p) ! gi)]"
    using gi by (simp add: bots_removeBot)
  from bots_inv_remove [OF a, of gi b] show "pool_inv (removeBot gi b p)"
    by (simp only: pool_inv_def eq map_removeBot)
  show "\<forall>i<length (proxyGroups (removeBot gi b p)).
            b \<notin> set (bots (proxyGroups (removeBot gi b p) ! i))"
  proof (intro allI impI)
    fix i assume i: "i < length (proxyGroups (removeBot gi b p))"
    then have i': "i < length (map bots (proxyGroups p))" by (simp add: length_removeBot)
    have "b \<notin> set (map bots (proxyGroups (removeBot gi b p)) ! i)"
      unfolding eq by (rule bots_inv_removed [OF a Some i'])
    with i show "b \<notin> set (bots (proxyGroups (removeBot gi b p) ! i))" by simp
  qed
qed

lemma unbind_inv:
  assumes inv: "pool_inv p"
  shows "pool_inv (case botToGroupMap p b of Some gi \<Rightarrow> removeBot gi b p | None \<Rightarrow> p) \<and>
         (\<forall>i<length (proxyGroups (case botToGroupMap p b of Some gi \<Rightarrow> removeBot gi b p | None \<Rightarrow> p)).
             b \<notin> set (bots (proxyGroups (case botToGroupMap p b of Some gi \<Rightarrow> removeBot gi b p
                                           | None \<Rightarrow> p) ! i)))"
proof (cases "botToGroupMap p b")
  case None
  with inv unbind_None [OF inv None] show ?thesis by simp
next
  case (Some gi)
  with unbind_Some [OF inv Some] show ?thesis by simp
qed

lemma reassignBot_inv:
  assumes inv: "pool_inv p"
  shows "pool_inv (fst (reassignBot b ex p))"
proof -
  define p1 where "p1 = (case botToGroupMap p b of Some gi \<Rightarrow> removeBot gi b p | None \<Rightarrow> p)"
  have "pool_inv p1 \<and> (\<forall>i<length (proxyGroups p1). b \<notin> set (bots (proxyGroups p1 ! i)))"
    unfolding p1_def by (rule unbind_inv [OF inv])
  then have i1: "pool_inv p1"
    and fresh: "\<forall>i<length (proxyGroups p1). b \<notin> set (bots (proxyGroups p1 ! i))"
    by blast+
  show ?thesis
  proof (cases "length (availableGroups ex p1) = 0")
    case True
    with i1 show ?thesis by (simp add: reassignBot_def p1_def [symmetric])
  next
    case False
    define g where "g = hd (sort_cmp (group_cmp (proxyGroups p1)) (availableGroups ex p1))"
    from False have "g \<in> set (availableGroups ex p1)"
      unfolding g_def by (intro hd_sort_cmp) auto
    then have g: "g < length (proxyGroups p1)" by (rule availableGroups_bound)
    have "pool_inv ((addBot g b p1)\<lparr>botToGroupMap := (botToGroupMap (addBot g b p1))(b \<mapsto> g)\<rparr>)"
      using i1 g fresh by (rule pool_inv_add)
    with False show ?thesis
      by (simp add: reassignBot_def p1_def [symmetric] Let_def g_def [symmetric])
  qed
qed

lemma pool_inv_cong:
  "map bots (proxyGroups p') = map bots (proxyGroups p) \<Longrightarrow> botToGroupMap p' = botToGroupMap p \<Longrightarrow>
   pool_inv p' = pool_inv p"
  by (simp only: pool_inv_def)

lemma bots_recordLoginFailure: "bots (recordLoginFailure g) = bots g"
  by (simp add: recordLoginFailure_def)

lemma bots_recordLoginSuccess: "bots (recordLoginSuccess g) = bots g"
  by (simp add: recordLoginSuccess_def)

lemma bots_startRequest: "bots (startRequest g now) = bots g"
  by (simp add: startRequest_def)

lemma bots_endRequest: "bots (endRequest g success) = bots g"
  by (simp add: endRequest_def Let_def)

lemma chargeLoginFailure_inv:
  assumes inv: "pool_inv p"
  shows "pool_inv (chargeLoginFailure grp p)"
proof -
  have "map bots (proxyGroups (chargeLoginFailure grp p)) = map bots (proxyGroups p)"
    "botToGroupMap (chargeLoginFailure grp p) = botToGroupMap p"
    by (auto simp: chargeLoginFailure_def Let_def map_update_same bots_recordLoginFailure
        split: option.splits)
  then show ?thesis using inv pool_inv_cong by blast
qed

lemma handleLoginFailure_inv:
  assumes inv: "pool_inv p"
  shows "pool_inv (fst (handleLoginFailure b reason p))"
proof -
  define p1 where "p1 = chargeLoginFailure (botToGroupMap p b) p"
  have i1: "pool_inv p1" unfolding p1_def using inv by (rule chargeLoginFailure_inv)
  have i2: "pool_inv (p1\<lparr>botRetryCount := c\<rparr>)" for c
    using i1 by (simp add: pool_inv_def)
  have i3: "pool_inv p3" if "reassignBot b ex (p1\<lparr>botRetryCount := c\<rparr>) = (p3, r)" for c ex p3 r
    using reassignBot_inv [OF i2, of b ex c] that by simp
  show ?thesis
    unfolding handleLoginFailure_def p1_def [symmetric] Let_def
    using i1 i3
    by (auto split: prod.splits option.splits)
qed

lemma map_bots_endRequest:
  "map bots (gs[i := endRequest (gs ! i) success]) = map bots gs"
  by (rule map_update_same [where g = "\<lambda>g. endRequest g success"]) (rule bots_endRequest)

lemma map_bots_startRequest:
  "map bots (gs[i := startRequest (gs ! i) now]) = map bots gs"
  by (rule map_update_same [where g = "\<lambda>g. startRequest g now"]) (rule bots_startRequest)

lemma handleLoginSuccess_inv: "pool_inv p \<Longrightarrow> pool_inv (handleLoginSuccess b p)"
proof -
  assume inv: "pool_inv p"
  have "map bots (proxyGroups (handleLoginSuccess b p)) = map bots (proxyGroups p)"
    "botToGroupMap (handleLoginSuccess b p) = botToGroupMap p"
    by (auto simp: handleLoginSuccess_def Let_def map_update_same bots_recordLoginSuccess
        split: option.splits)
  then show ?thesis using inv pool_inv_cong by blast
qed

lemma releaseBot_inv: "pool_inv p \<Longrightarrow> pool_inv (releaseBot b success p)"
proof -
  assume inv: "pool_inv p"
  have "map bots (proxyGroups (releaseBot b success p)) = map bots (proxyGroups p)"
    "botToGroupMap (releaseBot b success p) = botToGroupMap p"
    by (auto simp: releaseBot_def Let_def map_bots_endRequest split: option.splits)
  then show ?thesis using inv pool_inv_cong by blast
qed

lemma getAvailableBot_inv: "pool_inv p \<Longrightarrow> pool_inv (snd (getAvailableBot strategy now p))"
proof -
  assume inv: "pool_inv p"
  have "map bots (proxyGroups (snd (getAvailableBot strategy now p))) = map bots (proxyGroups p)"
    "botToGroupMap (snd (getAvailableBot strategy now p)) = botToGroupMap p"
    by (auto simp: getAvailableBot_def Let_def map_bots_startRequest
        split: option.splits prod.splits)
  then show ?thesis using inv pool_inv_cong by blast
qed

lemma bots_loadProxies: "g \<in> set (loadProxies src) \<Longrightarrow> bots g = []"
  by (cases src) (auto simp: loadProxies_def newProxyGroup_def)

lemma construct_inv: "pool_inv (newProxyPoolManager src maxReq cooldown rc h)"
proof -
  have "bots (loadProxies src ! i) = []" if "i < length (loadProxies src)" for i
    using that by (intro bots_loadProxies [of _ src]) (rule nth_mem)
  then show ?thesis
    by (simp add: pool_inv_def bots_inv_def newProxyPoolManager_def)
qed

lemma reachable_inv: "reachable p \<Longrightarrow> pool_inv p"
proof (induction rule: reachable.induct)
  case (construct src maxReq cooldown rc h)
  show ?case by (rule construct_inv)
next
  case (distribute p bs)
  then show ?case by (simp add: distributeBots_inv)
next
  case (reassign p b ex)
  then show ?case by (simp add: reassignBot_inv)
next
  case (loginFailure p b reason)
  then show ?case by (simp add: handleLoginFailure_inv)
next
  case (loginSuccess p b)
  then show ?case by (simp add: handleLoginSuccess_inv)
next
  case (select p strategy now)
  then show ?case by (simp add: getAvailableBot_inv)
next
  case (release p b success)
  then show ?case by (simp add: releaseBot_inv)
next
  case (sessions p h)
  then show ?case by (simp add: pool_inv_def)
qed

lemma pool_inv_at_most_one: "pool_inv p \<Longrightarrow> in_at_most_one_group p"
proof -
  assume inv: "pool_inv p"
  then have a: "bots_inv (map bots (proxyGroups p)) (botToGroupMap p)"
    by (simp only: pool_inv_def)
  have d: "distinct (bots (proxyGroups p ! i))" if "i < length (proxyGroups p)" for i
  proof -
    from that have "i < length (map bots (proxyGroups p))" by simp
    with a have "distinct (map bots (proxyGroups p) ! i)"
      unfolding bots_inv_def by blast
    with that show ?thesis by simp
  qed
  have o: "botToGroupMap p x = Some i"
    if "i < length (proxyGroups p)" "x \<in> set (bots (proxyGroups p ! i))" for i x
  proof -
    from that have "i < length (map bots (proxyGroups p))" "x \<in> set (map bots (proxyGroups p) ! i)"
      by simp_all
    with a show ?thesis unfolding bots_inv_def by blast
  qed
  show ?thesis unfolding in_at_most_one_group_def
  proof (intro conjI allI impI)
    fix x i j
    assume "i < length (proxyGroups p) \<and> j < length (proxyGroups p) \<and>
          x \<in> set (bots (proxyGroups p ! i)) \<and> x \<in> set (bots (proxyGroups p ! j))"
    then have "botToGroupMap p x = Some i" "botToGroupMap p x = Some j" using o by blast+
    then show "i = j" by simp
  next
    fix i assume "i < length (proxyGroups p)"
    then show "distinct (bots (proxyGroups p ! i))" by (rule d)
  qed
qed

text \<open>
  Claim C5. In every state of the pool that the constructor and the operations
  \<open>distributeBots\<close>, \<open>reassignBot\<close>, \<open>handleLoginFailure\<close>, \<open>handleLoginSuccess\<close>,
  \<open>getAvailableBot\<close> and \<open>releaseBot\<close> reach, every session is in the list of at most
  one proxy group, and is so again after \<open>reassignBot\<close>, \<open>handleLoginFailure\<close> and
  \<open>distributeBots\<close>. The operations \<open>addBot\<close> and \<open>removeBot\<close> of a group run inside
  \<open>distributeBots\<close> and \<open>reassignBot\<close>: a session is added to a group only after it has
  been taken out of the group it was in.
\<close>

theorem session_in_at_most_one_group:
  assumes "reachable p"
  shows "in_at_most_one_group p \<and>
         in_at_most_one_group (fst (reassignBot b ex p)) \<and>
         in_at_most_one_group (fst (handleLoginFailure b reason p)) \<and>
         (distinct bs \<longrightarrow> in_at_most_one_group (distributeBots bs p))"
proof -
  from assms have inv: "pool_inv p" by (rule reachable_inv)
  have "in_at_most_one_group p"
    using inv by (rule pool_inv_at_most_one)
  moreover have "in_at_most_one_group (fst (reassignBot b ex p))"
    using inv by (intro pool_inv_at_most_one reassignBot_inv)
  moreover have "in_at_most_one_group (fst (handleLoginFailure b reason p))"
    using inv by (intro pool_inv_at_most_one handleLoginFailure_inv)
  moreover have "distinct bs \<longrightarrow> in_at_most_one_group (distributeBots bs p)"
    using inv by (auto intro: pool_inv_at_most_one distributeBots_inv)
  ultimately show ?thesis by blast
qed

theorem session_in_at_most_one_group_witness:
  "reachable (pool1_retried ''steamguard'') \<and>
   in_at_most_one_group (pool1_retried ''steamguard'') \<and>
   map bots (proxyGroups (pool1_retried ''steamguard'')) = [[], [0]]"
proof -
  have "distinct [0::nat]" by simp
  then have r: "reachable (pool1_retried ''steamguard'')"
    unfolding pool1_retried_def pool1_def pool0_def
    by (intro reachable.loginFailure reachable.loginSuccess reachable.distribute
        reachable.construct)
  have "map bots (proxyGroups (pool1_retried ''steamguard'')) = [[], [0]]"
    unfolding pool1_retried_def by (simp add: hlf_defs)
  with r session_in_at_most_one_group [OF r, of 0 "[]" "''steamguard''" "[]"] show ?thesis
    by simp
qed

text \<open>
  The least-loaded loop over a list of group positions, for any starting values of
  \<open>minLoad\<close> and of the selection: either the selection comes back unchanged and every
  selectable group of the list has a load of at least \<open>minLoad\<close>, or a group of the list
  is selected whose load is below \<open>minLoad\<close>, below the load of every selectable group
  before it and at most the load of every selectable group after it.
\<close>

lemma least_loaded_loop_spec:
  "(least_loaded_loop p now xs minLoad sel = sel \<and>
      (\<forall>j\<in>set xs. selectable p now j \<longrightarrow>
          (case minLoad of None \<Rightarrow> False | Some l \<Rightarrow> l \<le> group_load (proxyGroups p ! j))))
   \<or> (\<exists>i b ys zs.
         least_loaded_loop p now xs minLoad sel = Some (i, b) \<and> xs = ys @ i # zs \<and>
         canAcceptRequest (proxyGroups p ! i) (maxRequestsPerProxy p) (requestCooldown p) now \<and>
         group_getAvailableBot (heap p) (proxyGroups p ! i) = Some b \<and>
         load_less (group_load (proxyGroups p ! i)) minLoad \<and>
         (\<forall>j\<in>set ys. selectable p now j \<longrightarrow>
             group_load (proxyGroups p ! i) < group_load (proxyGroups p ! j)) \<and>
         (\<forall>j\<in>set zs. selectable p now j \<longrightarrow>
             group_load (proxyGroups p ! i) \<le> group_load (proxyGroups p ! j)))"
  (is "?A xs minLoad sel \<or> ?B xs minLoad sel")
proof (induction xs arbitrary: minLoad sel)
  case Nil
  then show ?case by simp
next
  case (Cons x xs)
  let ?g = "proxyGroups p ! x"
  let ?l = "group_load ?g"
  show ?case
  proof (cases "selectable p now x \<and> load_less ?l minLoad")
    case True
    then obtain bx where bx: "group_getAvailableBot (heap p) ?g = Some bx"
      by (auto simp: selectable_def)
    from True have ca: "canAcceptRequest ?g (maxRequestsPerProxy p) (requestCooldown p) now"
      by (simp add: selectable_def)
    from True have ll: "load_less ?l minLoad" by simp
    have step: "least_loaded_loop p now (x # xs) minLoad sel
                  = least_loaded_loop p now xs (Some ?l) (Some (x, bx))"
      using ca ll bx by (simp add: Let_def)
    from Cons.IH [of "Some ?l" "Some (x, bx)"]
    show ?thesis
    proof
      assume a: "?A xs (Some ?l) (Some (x, bx))"
      have "?B (x # xs) minLoad sel"
        apply (rule exI [of _ x], rule exI [of _ bx], rule exI [of _ "[]"], rule exI [of _ xs])
        using a step ca bx ll by simp
      then show ?thesis ..
    next
      assume "?B xs (Some ?l) (Some (x, bx))"
      then obtain i b ys zs where
        r: "least_loaded_loop p now xs (Some ?l) (Some (x, bx)) = Some (i, b)"
        and xs: "xs = ys @ i # zs"
        and ci: "canAcceptRequest (proxyGroups p ! i) (maxRequestsPerProxy p) (requestCooldown p) now"
        and bi: "group_getAvailableBot (heap p) (proxyGroups p ! i) = Some b"
        and li: "group_load (proxyGroups p ! i) < ?l"
        and before: "\<forall>j\<in>set ys. selectable p now j \<longrightarrow>
             group_load (proxyGroups p ! i) < group_load (proxyGroups p ! j)"
        and after: "\<forall>j\<in>set zs. selectable p now j \<longrightarrow>
             group_load (proxyGroups p ! i) \<le> group_load (proxyGroups p ! j)"
        by (auto simp: load_less_def)
      have ll': "load_less (group_load (proxyGroups p ! i)) minLoad"
        using li ll by (auto simp: load_less_def split: option.splits)
      have "?B (x # xs) minLoad sel"
        apply (rule exI [of _ i], rule exI [of _ b], rule exI [of _ "x # ys"], rule exI [of _ zs])
        using step r xs ci bi ll' before after li by simp
      then show ?thesis ..
    qed
  next
    case False
    have step: "least_loaded_loop p now (x # xs) minLoad sel
                  = least_loaded_loop p now xs minLoad sel"
      using False by (auto simp: Let_def selectable_def split: option.splits)
    have notless: "selectable p now x \<Longrightarrow> \<exists>l. minLoad = Some l \<and> l \<le> ?l"
      using False by (auto simp: load_less_def split: option.splits)
    from Cons.IH [of minLoad sel]
    show ?thesis
    proof
      assume a: "?A xs minLoad sel"
      have "?A (x # xs) minLoad sel"
        using a step notless by auto
      then show ?thesis ..
    next
      assume "?B xs minLoad sel"
      then obtain i b ys zs where
        r: "least_loaded_loop p now xs minLoad sel = Some (i, b)"
        and xs: "xs = ys @ i # zs"
        and ci: "canAcceptRequest (proxyGroups p ! i) (maxRequestsPerProxy p) (requestCooldown p) now"
        and bi: "group_getAvailableBot (heap p) (proxyGroups p ! i) = Some b"
        and li: "load_less (group_load (proxyGroups p ! i)) minLoad"
        and before: "\<forall>j\<in>set ys. selectable p now j \<longrightarrow>
             group_load (proxyGroups p ! i) < group_load (proxyGroups p ! j)"
        and after: "\<forall>j\<in>set zs. selectable p now j \<longrightarrow>
             group_load (proxyGroups p ! i) \<le> group_load (proxyGroups p ! j)"
        by auto
      have lx: "selectable p now x \<Longrightarrow> group_load (proxyGroups p ! i) < ?l"
        using notless li by (auto simp: load_less_def)
      have "?B (x # xs) minLoad sel"
        apply (rule exI [of _ i], rule exI [of _ b], rule exI [of _ "x # ys"], rule exI [of _ zs])
        using step r xs ci bi li before after lx by simp
      then show ?thesis ..
    qed
  qed
qed

lemma upt_split:
  assumes "[0..<n] = ys @ i # zs"
  shows "i < n \<and> set ys = {0..<i} \<and> set zs = {Suc i..<n}"
proof -
  define k where "k = length ys"
  have "length [0..<n] = length (ys @ i # zs)" by (simp only: assms)
  then have len: "k < n" by (simp add: k_def)
  have "[0..<n] ! k = (ys @ i # zs) ! k" by (simp only: assms)
  then have i: "i = k" using len by (simp add: k_def)
  have "take k [0..<n] = take k (ys @ i # zs)" by (simp only: assms)
  then have ys: "ys = [0..<k]" using len by (simp add: k_def)
  have "drop (Suc k) [0..<n] = drop (Suc k) (ys @ i # zs)" by (simp only: assms)
  then have zs: "zs = [Suc k..<n]" by (simp add: k_def)
  have "set ys = {0..<k}" by (simp only: ys set_upt)
  moreover have "set zs = {Suc k..<n}" by (simp only: zs set_upt)
  ultimately show ?thesis using len unfolding i by blast
qed

lemma group_getAvailableBot_Some:
  "group_getAvailableBot h g = Some b \<Longrightarrow> b \<in> set (bots g) \<and> \<not> busy (h b) \<and> ready (h b)"
  by (auto simp: group_getAvailableBot_def available_def find_Some_iff)

lemma canAcceptRequest_iff:
  "canAcceptRequest g maxRequests cooldownMs now \<longleftrightarrow>
     activeRequests g < maxRequests \<and> (cooldownMs = 0 \<or> cooldownMs \<le> now - lastRequestTime g)"
  by (auto simp: canAcceptRequest_def)

text \<open>
  Claim C6, as amended. With the least-loaded strategy \<open>getAvailableBot\<close> selects, among
  the groups that accept a request and have an available session, the first one in the
  order of \<open>proxyGroups\<close> whose load \<open>activeRequests / max 1 |bots|\<close> is minimal, and
  returns the first available session of that group; the group's \<open>activeRequests\<close> and
  \<open>totalRequests\<close> grow by one and its \<open>lastRequestTime\<close> becomes \<open>now\<close>, nothing else
  changes. When no group is selectable it returns no session and changes nothing.
\<close>

theorem least_loaded_selection:
  assumes "strategy \<noteq> ''round_robin''"
  shows "(case getAvailableBot strategy now p of
            (None, p') \<Rightarrow> p' = p \<and> (\<forall>j<length (proxyGroups p). \<not> selectable p now j)
          | (Some b, p') \<Rightarrow>
              (\<exists>i<length (proxyGroups p).
                  activeRequests (proxyGroups p ! i) < maxRequestsPerProxy p \<and>
                  (requestCooldown p = 0 \<or>
                   requestCooldown p \<le> now - lastRequestTime (proxyGroups p ! i)) \<and>
                  group_getAvailableBot (heap p) (proxyGroups p ! i) = Some b \<and>
                  b \<in> set (bots (proxyGroups p ! i)) \<and> ready (heap p b) \<and> \<not> busy (heap p b) \<and>
                  (\<forall>j<length (proxyGroups p). selectable p now j \<longrightarrow>
                      group_load (proxyGroups p ! i) \<le> group_load (proxyGroups p ! j)) \<and>
                  (\<forall>j<i. selectable p now j \<longrightarrow>
                      group_load (proxyGroups p ! i) < group_load (proxyGroups p ! j)) \<and>
                  p' = p\<lparr>proxyGroups := (proxyGroups p)[i := startRequest (proxyGroups p ! i) now]\<rparr> \<and>
                  activeRequests (proxyGroups p' ! i) = activeRequests (proxyGroups p ! i) + 1 \<and>
                  totalRequests (proxyGroups p' ! i) = totalRequests (proxyGroups p ! i) + 1 \<and>
                  lastRequestTime (proxyGroups p' ! i) = now))"
proof -
  let ?n = "length (proxyGroups p)"
  let ?r = "least_loaded_loop p now [0..<?n] None None"
  have run: "getAvailableBot strategy now p =
               (case ?r of
                  Some (gi, b) \<Rightarrow>
                    (Some b, p\<lparr>proxyGroups := (proxyGroups p)[gi := startRequest (proxyGroups p ! gi) now]\<rparr>)
                | None \<Rightarrow> (None, p))"
    using assms by (simp add: getAvailableBot_def)
  from least_loaded_loop_spec [of p now "[0..<?n]" None None]
  show ?thesis
  proof
    assume "?r = None \<and>
      (\<forall>j\<in>set [0..<?n]. selectable p now j \<longrightarrow>
          (case None :: rat option of None \<Rightarrow> False | Some l \<Rightarrow> l \<le> group_load (proxyGroups p ! j)))"
    then have "?r = None" "\<forall>j<?n. \<not> selectable p now j" by auto
    then show ?thesis by (simp add: run)
  next
    assume "\<exists>i b ys zs.
         ?r = Some (i, b) \<and> [0..<?n] = ys @ i # zs \<and>
         canAcceptRequest (proxyGroups p ! i) (maxRequestsPerProxy p) (requestCooldown p) now \<and>
         group_getAvailableBot (heap p) (proxyGroups p ! i) = Some b \<and>
         load_less (group_load (proxyGroups p ! i)) None \<and>
         (\<forall>j\<in>set ys. selectable p now j \<longrightarrow>
             group_load (proxyGroups p ! i) < group_load (proxyGroups p ! j)) \<and>
         (\<forall>j\<in>set zs. selectable p now j \<longrightarrow>
             group_load (proxyGroups p ! i) \<le> group_load (proxyGroups p ! j))"
    then obtain i b ys zs where
      r: "?r = Some (i, b)" and split: "[0..<?n] = ys @ i # zs"
      and ci: "canAcceptRequest (proxyGroups p ! i) (maxRequestsPerProxy p) (requestCooldown p) now"
      and bi: "group_getAvailableBot (heap p) (proxyGroups p ! i) = Some b"
      and before: "\<forall>j\<in>set ys. selectable p now j \<longrightarrow>
             group_load (proxyGroups p ! i) < group_load (proxyGroups p ! j)"
      and after: "\<forall>j\<in>set zs. selectable p now j \<longrightarrow>
             group_load (proxyGroups p ! i) \<le> group_load (proxyGroups p ! j)"
      by blast
    from upt_split [OF split] have i: "i < ?n" and ys: "set ys = {0..<i}" and zs: "set zs = {Suc i..<?n}"
      by blast+
    have lt: "\<forall>j<i. selectable p now j \<longrightarrow>
                group_load (proxyGroups p ! i) < group_load (proxyGroups p ! j)"
      using before ys by simp
    have le: "\<forall>j<?n. selectable p now j \<longrightarrow>
                group_load (proxyGroups p ! i) \<le> group_load (proxyGroups p ! j)"
    proof (intro allI impI)
      fix j assume j: "j < ?n" and s: "selectable p now j"
      consider "j < i" | "j = i" | "i < j" by linarith
      then show "group_load (proxyGroups p ! i) \<le> group_load (proxyGroups p ! j)"
      proof cases
        case 1
        with lt s show ?thesis by auto
      next
        case 2
        then show ?thesis by simp
      next
        case 3
        with j zs have "j \<in> set zs" by simp
        with after s show ?thesis by blast
      qed
    qed
    from ci have adm: "activeRequests (proxyGroups p ! i) < maxRequestsPerProxy p"
        "requestCooldown p = 0 \<or> requestCooldown p \<le> now - lastRequestTime (proxyGroups p ! i)"
      by (simp_all add: canAcceptRequest_iff)
    from group_getAvailableBot_Some [OF bi]
    have av: "b \<in> set (bots (proxyGroups p ! i))" "ready (heap p b)" "\<not> busy (heap p b)"
      by simp_all
    have cnt: "activeRequests (startRequest (proxyGroups p ! i) now) = activeRequests (proxyGroups p ! i) + 1"
      "totalRequests (startRequest (proxyGroups p ! i) now) = totalRequests (proxyGroups p ! i) + 1"
      "lastRequestTime (startRequest (proxyGroups p ! i) now) = now"
      by (simp_all add: startRequest_def)
    show ?thesis
      unfolding run r
      apply (simp only: option.case prod.case)
      apply (rule exI [of _ i])
      using i adm bi av lt le cnt by simp
  qed
qed

lemma pool_c0_groups: "proxyGroups pool_c0 =
  [\<lparr>group_id = 0, proxyUrl = Some ''http://p0'', bots = [0, 1],
     activeRequests = 0, totalRequests = 0, lastRequestTime = 0,
     failures = 0, loginFailures = 0, successfulLogins = 0\<rparr>,
  \<lparr>group_id = 1, proxyUrl = Some ''socks5://p1'', bots = [2, 3],
     activeRequests = 0, totalRequests = 0, lastRequestTime = 0,
     failures = 0, loginFailures = 0, successfulLogins = 0\<rparr>]"
  by (simp add: pool_c0_def pool0_def newProxyPoolManager_def distributeBots_def
       loadProxies_def Let_def addBot_def newProxyGroup_def)

lemma pool_c0_fields: "maxRequestsPerProxy pool_c0 = 3" "requestCooldown pool_c0 = 100"
  by (simp_all add: pool_c0_def pool0_def newProxyPoolManager_def distributeBots_def
       loadProxies_def Let_def addBot_def newProxyGroup_def)

lemma pool_c0_heap:
  "available (heap pool_c0 0) = False" "available (heap pool_c0 1) = False"
  "available (heap pool_c0 (Suc 0)) = False"
  "available (heap pool_c0 2) = True" "available (heap pool_c0 3) = True"
  by (simp_all add: pool_c0_def pool0_def newProxyPoolManager_def distributeBots_def
       loadProxies_def Let_def addBot_def newProxyGroup_def heap_c_def available_def ready_def
       newBot_def bot_ready_def)

lemma pool_c_groups: "proxyGroups pool_c =
  [\<lparr>group_id = 0, proxyUrl = Some ''http://p0'', bots = [0, 1],
     activeRequests = 0, totalRequests = 0, lastRequestTime = 0,
     failures = 0, loginFailures = 0, successfulLogins = 0\<rparr>,
  \<lparr>group_id = 1, proxyUrl = Some ''socks5://p1'', bots = [2, 3],
     activeRequests = 1, totalRequests = 1, lastRequestTime = 1000,
     failures = 0, loginFailures = 0, successfulLogins = 0\<rparr>]"
  by (simp add: pool_c_def pool_c1_def getAvailableBot_def pool_c0_groups pool_c0_fields pool_c0_heap
      canAcceptRequest_def group_load_def load_less_def group_getAvailableBot_def upt_rec
      startRequest_def)

lemma pool_c1_fields: "maxRequestsPerProxy pool_c1 = 3" "requestCooldown pool_c1 = 100"
  "heap pool_c1 = heap pool_c0"
  by (simp_all add: pool_c1_def getAvailableBot_def pool_c0_groups pool_c0_fields pool_c0_heap
      canAcceptRequest_def group_load_def load_less_def group_getAvailableBot_def upt_rec)

lemma pool_c_fields: "maxRequestsPerProxy pool_c = 3" "requestCooldown pool_c = 100"
  by (simp_all add: pool_c_def pool_c1_fields)

lemma pool_c_heap:
  "available (heap pool_c 0) = False" "available (heap pool_c 1) = False"
  "available (heap pool_c (Suc 0)) = False"
  "available (heap pool_c 2) = False" "available (heap pool_c 3) = True"
  using pool_c0_heap
  by (simp_all add: pool_c_def pool_c1_fields available_def sendFloatRequest_def Let_def
      setTimeout_def settle_def split: prod.splits)

lemma pool_c_eval:
  "fst (getAvailableBot ''least_loaded'' 2000 pool_c) = Some 3"
  by (simp add: getAvailableBot_def pool_c_groups pool_c_fields pool_c_heap canAcceptRequest_def
      group_load_def load_less_def group_getAvailableBot_def upt_rec)

theorem least_loaded_selection_witness:
  "''least_loaded'' \<noteq> ''round_robin'' \<and>
   fst (getAvailableBot ''least_loaded'' 2000 pool_c) = Some 3 \<and>
   (\<exists>i<length (proxyGroups pool_c).
       3 \<in> set (bots (proxyGroups pool_c ! i)) \<and>
       (\<forall>j<length (proxyGroups pool_c). selectable pool_c 2000 j \<longrightarrow>
            group_load (proxyGroups pool_c ! i) \<le> group_load (proxyGroups pool_c ! j)) \<and>
       activeRequests (proxyGroups (snd (getAvailableBot ''least_loaded'' 2000 pool_c)) ! i) =
          activeRequests (proxyGroups pool_c ! i) + 1 \<and>
       totalRequests (proxyGroups (snd (getAvailableBot ''least_loaded'' 2000 pool_c)) ! i) =
          totalRequests (proxyGroups pool_c ! i) + 1 \<and>
       lastRequestTime (proxyGroups (snd (getAvailableBot ''least_loaded'' 2000 pool_c)) ! i) = 2000)"
proof -
  have h: "''least_loaded'' \<noteq> ''round_robin''" by simp
  have e: "getAvailableBot ''least_loaded'' 2000 pool_c
             = (Some 3, snd (getAvailableBot ''least_loaded'' 2000 pool_c))"
    using pool_c_eval by (simp add: prod_eq_iff)
  from least_loaded_selection [OF h, where now = 2000 and p = pool_c]
  have "\<exists>i<length (proxyGroups pool_c).
       3 \<in> set (bots (proxyGroups pool_c ! i)) \<and>
       (\<forall>j<length (proxyGroups pool_c). selectable pool_c 2000 j \<longrightarrow>
            group_load (proxyGroups pool_c ! i) \<le> group_load (proxyGroups pool_c ! j)) \<and>
       activeRequests (proxyGroups (snd (getAvailableBot ''least_loaded'' 2000 pool_c)) ! i) =
          activeRequests (proxyGroups pool_c ! i) + 1 \<and>
       totalRequests (proxyGroups (snd (getAvailableBot ''least_loaded'' 2000 pool_c)) ! i) =
          totalRequests (proxyGroups pool_c ! i) + 1 \<and>
       lastRequestTime (proxyGroups (snd (getAvailableBot ''least_loaded'' 2000 pool_c)) ! i) = 2000"
    apply (subst (asm) e)
    apply (simp only: prod.case option.case)
    apply (erule exE)
    subgoal for i by (rule exI [of _ i]) blast
    done
  with h pool_c_eval show ?thesis by blast
qed

text \<open>
  Claim C6 as stated minimizes the load over the admissible groups, those with
  \<open>activeRequests\<close> below the limit and the cooldown elapsed. At time 2000 the first
  group is admissible with load 0 but none of its sessions is available; the second
  group has load 1/2. The session returned is session 3 of the second group.
\<close>

theorem least_loaded_counterexample:
  "fst (getAvailableBot ''least_loaded'' 2000 pool_c) = Some 3 \<and>
   3 \<in> set (bots (proxyGroups pool_c ! 1)) \<and>
   3 \<notin> set (bots (proxyGroups pool_c ! 0)) \<and>
   activeRequests (proxyGroups pool_c ! 0) < maxRequestsPerProxy pool_c \<and>
   requestCooldown pool_c \<le> 2000 - lastRequestTime (proxyGroups pool_c ! 0) \<and>
   canAcceptRequest (proxyGroups pool_c ! 0) (maxRequestsPerProxy pool_c) (requestCooldown pool_c) 2000 \<and>
   group_load (proxyGroups pool_c ! 0) = 0 \<and>
   group_load (proxyGroups pool_c ! 1) = 1 / 2"
  by (simp add: pool_c_eval pool_c_groups pool_c_fields canAcceptRequest_def group_load_def)

end
